theory Spec2Isabelle
  imports Complex_Main "HOL-Library.FSet" "HOL-Library.Multiset"
begin

section \<open>The validator of \<open>neurons/validator.py\<close>\<close>

text \<open>
  The theory embeds the parts of class \<open>Validator\<close> that carry state:
  \<open>try_get_block\<close> (the block fetch in a worker process), \<open>update_models\<close> (the
  background loop that syncs one uid per block and stages it in
  \<open>pending_uids_to_eval\<close>), \<open>run_step\<close> (one evaluation round: losses, pairwise
  wins, softmax, moving average of the weights, the next set of uids to evaluate) and
  \<open>try_run_step\<close> (the round under its deadline).

  The package \<open>pretrain\<close> is not part of the sources, so what the validator calls
  there (\<open>pt.graph.metadata\<close>, \<open>pt.graph.sync\<close>, \<open>pt.graph.load_model\<close>,
  \<open>pt.validation.compute_losses\<close>, \<open>pt.validation.iswin\<close>) and the constants
  \<open>pt.alpha\<close> and \<open>pt.temperature\<close> are parameters of the model.
\<close>

subsection \<open>Exceptions and floating-point values\<close>

text \<open>The exceptions the modelled code can raise.\<close>

datatype error = IndexError | ZeroDivisionError

text \<open>
  A float is a real number, one of the two infinities, or NaN. Arithmetic follows
  IEEE 754 on the special values and is exact on the finite ones: rounding, overflow
  to infinity and the sign of zero are not modelled.
\<close>

datatype pyfloat = Fin real | PInf | NInf | NaN

fun fl_neg :: "pyfloat \<Rightarrow> pyfloat" where
  "fl_neg (Fin a) = Fin (- a)"
| "fl_neg PInf = NInf"
| "fl_neg NInf = PInf"
| "fl_neg NaN = NaN"

fun fl_add :: "pyfloat \<Rightarrow> pyfloat \<Rightarrow> pyfloat" where
  "fl_add NaN _ = NaN"
| "fl_add _ NaN = NaN"
| "fl_add (Fin a) (Fin b) = Fin (a + b)"
| "fl_add PInf NInf = NaN"
| "fl_add NInf PInf = NaN"
| "fl_add PInf _ = PInf"
| "fl_add NInf _ = NInf"
| "fl_add (Fin a) PInf = PInf"
| "fl_add (Fin a) NInf = NInf"

definition fl_sub :: "pyfloat \<Rightarrow> pyfloat \<Rightarrow> pyfloat" where
  "fl_sub a b = fl_add a (fl_neg b)"

text \<open>The sign of a product or quotient with an infinite operand.\<close>

definition signed_inf :: "bool \<Rightarrow> pyfloat" where
  "signed_inf positive = (if positive then PInf else NInf)"

fun fl_mul :: "pyfloat \<Rightarrow> pyfloat \<Rightarrow> pyfloat" where
  "fl_mul NaN _ = NaN"
| "fl_mul _ NaN = NaN"
| "fl_mul (Fin a) (Fin b) = Fin (a * b)"
| "fl_mul (Fin a) PInf = (if a = 0 then NaN else signed_inf (0 < a))"
| "fl_mul (Fin a) NInf = (if a = 0 then NaN else signed_inf (a < 0))"
| "fl_mul PInf (Fin b) = (if b = 0 then NaN else signed_inf (0 < b))"
| "fl_mul NInf (Fin b) = (if b = 0 then NaN else signed_inf (b < 0))"
| "fl_mul PInf PInf = PInf"
| "fl_mul NInf NInf = PInf"
| "fl_mul PInf NInf = NInf"
| "fl_mul NInf PInf = NInf"

text \<open>
  Tensor division: dividing by zero raises nothing, \<open>0 / 0\<close> is NaN and \<open>x / 0\<close> is an
  infinity (the zero taken as positive).
\<close>

fun fl_div :: "pyfloat \<Rightarrow> pyfloat \<Rightarrow> pyfloat" where
  "fl_div NaN _ = NaN"
| "fl_div _ NaN = NaN"
| "fl_div (Fin a) (Fin b) =
     (if b = 0 then (if a = 0 then NaN else signed_inf (0 < a)) else Fin (a / b))"
| "fl_div (Fin a) PInf = Fin 0"
| "fl_div (Fin a) NInf = Fin 0"
| "fl_div PInf (Fin b) = signed_inf (0 \<le> b)"
| "fl_div NInf (Fin b) = signed_inf (b < 0)"
| "fl_div PInf _ = NaN"
| "fl_div NInf _ = NaN"

fun fl_exp :: "pyfloat \<Rightarrow> pyfloat" where
  "fl_exp (Fin a) = Fin (exp a)"
| "fl_exp PInf = PInf"
| "fl_exp NInf = Fin 0"
| "fl_exp NaN = NaN"

text \<open>The maximum of two values as \<open>torch.max\<close> takes it: NaN wins.\<close>

fun fl_max :: "pyfloat \<Rightarrow> pyfloat \<Rightarrow> pyfloat" where
  "fl_max NaN _ = NaN"
| "fl_max _ NaN = NaN"
| "fl_max PInf _ = PInf"
| "fl_max _ PInf = PInf"
| "fl_max NInf b = b"
| "fl_max a NInf = a"
| "fl_max (Fin a) (Fin b) = Fin (max a b)"

text \<open>\<open>tensor.sum()\<close>; the sum of the empty tensor is 0.\<close>

definition fl_sum :: "pyfloat list \<Rightarrow> pyfloat" where
  "fl_sum xs = foldr fl_add xs (Fin 0)"

text \<open>
  \<open>torch.softmax(x, dim=0)\<close>: \<open>exp (x\<^sub>i - m) / \<Sum>\<^sub>j exp (x\<^sub>j - m)\<close> with \<open>m\<close> the maximum
  entry; the softmax of the empty tensor is the empty tensor.
\<close>

definition softmax :: "pyfloat list \<Rightarrow> pyfloat list" where
  "softmax xs =
     (case xs of [] \<Rightarrow> []
      | x # rest \<Rightarrow>
          (let m = foldr fl_max rest x;
               es = map (\<lambda>y. fl_exp (fl_sub y m)) xs;
               total = fl_sum es
           in map (\<lambda>e. fl_div e total) es))"

text \<open>The largest finite value of \<open>torch.float32\<close>.\<close>

definition float32_max :: real where
  "float32_max = (2 - 1 / 2 ^ 23) * 2 ^ 127"

text \<open>
  \<open>tensor.nan_to_num(0.0)\<close>: NaN becomes 0, and the infinities become the largest and
  the smallest finite value of the tensor's type.
\<close>

fun nan_to_num :: "pyfloat \<Rightarrow> pyfloat" where
  "nan_to_num NaN = Fin 0"
| "nan_to_num PInf = Fin float32_max"
| "nan_to_num NInf = Fin (- float32_max)"
| "nan_to_num (Fin a) = Fin a"

subsection \<open>The state of the validator\<close>

text \<open>
  The fields of \<open>Validator\<close> that \<open>run_step\<close> and \<open>update_models\<close> read and write:
  the weight tensor (one entry per uid of the metagraph) and the two Python sets of
  uids.
\<close>

record validator =
  weights :: "pyfloat list"
  uids_to_eval :: "nat fset"
  pending_uids_to_eval :: "nat fset"

subsection \<open>\<open>try_get_block\<close>\<close>

text \<open>
  The chain query \<open>bt.subtensor(endpoint).block\<close> of the worker either raises or
  returns a block number.
\<close>

datatype query = QueryRaises | QueryReturns int

text \<open>
  One run of the worker process: the time it needs before it exits (\<open>None\<close> when it
  never does) and what its query does.
\<close>

record worker =
  exits_after :: "nat option"
  chain_query :: query

text \<open>
  The inner function \<open>get_block\<close>: the one item the worker puts on the queue, the
  block number, or \<open>None\<close> from the \<open>except\<close> branch.
\<close>

fun get_block :: "query \<Rightarrow> int option" where
  "get_block (QueryReturns block_number) = Some block_number"
| "get_block QueryRaises = None"

text \<open>\<open>process.is_alive()\<close> after \<open>process.join(timeout=ttl)\<close>.\<close>

definition is_alive :: "int \<Rightarrow> worker \<Rightarrow> bool" where
  "is_alive ttl w = (case exits_after w of None \<Rightarrow> True | Some t \<Rightarrow> ttl < int t)"

text \<open>
  \<open>try_get_block\<close>: a worker still alive at the deadline is terminated and the result
  is \<open>None\<close>; otherwise the result is what the worker put on the queue.
\<close>

definition try_get_block :: "int \<Rightarrow> worker \<Rightarrow> int option" where
  "try_get_block ttl w = (if is_alive ttl w then None else get_block (chain_query w))"

subsection \<open>\<open>update_models\<close>\<close>

text \<open>
  \<open>pt.graph.sync\<close> either raises (the \<open>except Exception\<close> of the loop catches it) or
  returns whether a new model was pulled.
\<close>

datatype sync_result = SyncRaises | SyncReturns bool

text \<open>
  What one iteration of the loop observes: the run of the block worker and what
  \<open>pt.graph.sync\<close> does if the iteration calls it.
\<close>

type_synonym tick = "worker \<times> sync_result"

text \<open>
  The state of the loop: the validator (the loop writes \<open>pending_uids_to_eval\<close>), the
  local \<open>last_uid_update\<close>, and two traces that make the calls visible: the uids
  \<open>pt.graph.sync\<close> was called with and the number of errors logged by the handler.
\<close>

record scheduler =
  validator_of :: validator
  last_uid_update :: int
  sync_calls :: "int list"
  errors_logged :: nat

text \<open>
  One iteration of the \<open>while\<close> loop of \<open>update_models\<close>: no block, or the slot of
  the last update again, and the iteration ends; otherwise the slot is recorded, the
  sync is called, and the uid is added to the pending set unless the sync raised.
\<close>

definition update_models_iter :: "tick \<Rightarrow> scheduler \<Rightarrow> scheduler" where
  "update_models_iter t st =
     (case try_get_block 10 (fst t) of
        None \<Rightarrow> st
      | Some block \<Rightarrow>
          (let uid = block mod 256 in
           if uid = last_uid_update st then st
           else
             (let st1 = st\<lparr>last_uid_update := uid, sync_calls := sync_calls st @ [uid]\<rparr> in
              case snd t of
                SyncRaises \<Rightarrow> st1\<lparr>errors_logged := errors_logged st1 + 1\<rparr>
              | SyncReturns _ \<Rightarrow>
                  st1\<lparr>validator_of := (validator_of st1)
                       \<lparr>pending_uids_to_eval :=
                          finsert (nat uid) (pending_uids_to_eval (validator_of st1))\<rparr>\<rparr>)))"

text \<open>
  The loop runs until the stop event is set: one iteration per tick of the list, the
  end of the list being the moment the event is seen.
\<close>

fun update_models_loop :: "tick list \<Rightarrow> scheduler \<Rightarrow> scheduler" where
  "update_models_loop [] st = st"
| "update_models_loop (t # ts) st = update_models_loop ts (update_models_iter t st)"

text \<open>\<open>update_models\<close> starts the loop with \<open>last_uid_update = -1\<close>.\<close>

definition update_models :: "tick list \<Rightarrow> validator \<Rightarrow> scheduler" where
  "update_models ts v =
     update_models_loop ts
       \<lparr>validator_of = v, last_uid_update = - 1, sync_calls = [], errors_logged = 0\<rparr>"

text \<open>A tick whose worker fetches \<open>block\<close> at once and whose sync returns \<open>updated\<close>.\<close>

definition tick_ok :: "int \<Rightarrow> bool \<Rightarrow> tick" where
  "tick_ok block updated =
     (\<lparr>exits_after = Some 0, chain_query = QueryReturns block\<rparr>, SyncReturns updated)"

text \<open>A tick whose worker fetches \<open>block\<close> at once and whose sync raises.\<close>

definition tick_sync_fails :: "int \<Rightarrow> tick" where
  "tick_sync_fails block =
     (\<lparr>exits_after = Some 0, chain_query = QueryReturns block\<rparr>, SyncRaises)"

text \<open>A validator with no weights and no uids.\<close>

definition empty_validator :: validator where
  "empty_validator = \<lparr>weights = [], uids_to_eval = {||}, pending_uids_to_eval = {||}\<rparr>"

subsection \<open>\<open>run_step\<close>: what the round reads\<close>

text \<open>
  Everything one round reads from outside the validator's fields: the constants
  \<open>pt.alpha\<close> and \<open>pt.temperature\<close>, the option \<open>sample_min\<close>, the order in which
  Python enumerates a set (\<open>list(self.uids_to_eval)\<close>), \<open>pt.graph.metadata\<close> (the
  timestamp of a uid's metadata, or \<open>None\<close>), the batches of the round's pages,
  \<open>pt.graph.load_model\<close>, \<open>pt.validation.compute_losses\<close> and
  \<open>pt.validation.iswin\<close>.
\<close>

record ('b, 'm, 't) env =
  alpha :: real
  temperature :: real
  sample_min :: int
  set_order :: "nat fset \<Rightarrow> nat list"
  metadata :: "nat \<Rightarrow> 't option"
  batches :: "'b list"
  load_model :: "nat \<Rightarrow> 'm option"
  compute_losses :: "'m \<Rightarrow> 'b list \<Rightarrow> pyfloat list"
  iswin :: "pyfloat \<Rightarrow> pyfloat \<Rightarrow> 't \<Rightarrow> 't \<Rightarrow> bool"

subsection \<open>\<open>run_step\<close>: uids, losses, wins\<close>

text \<open>
  The first loop of \<open>run_step\<close>: the uids whose metadata exists, each with its
  timestamp (the lists \<open>uids\<close> and \<open>timestamps\<close> of the code, kept as one list of
  pairs).
\<close>

fun pull_uids :: "(nat \<Rightarrow> 't option) \<Rightarrow> nat list \<Rightarrow> (nat \<times> 't) list" where
  "pull_uids meta [] = []"
| "pull_uids meta (uid # rest) =
     (case meta uid of
        None \<Rightarrow> pull_uids meta rest
      | Some timestamp \<Rightarrow> (uid, timestamp) # pull_uids meta rest)"

definition effective :: "('b, 'm, 't) env \<Rightarrow> validator \<Rightarrow> (nat \<times> 't) list" where
  "effective e v = pull_uids (metadata e) (set_order e (uids_to_eval v))"

text \<open>
  The losses of one uid: \<open>math.inf\<close> for every batch when the model is not there,
  what \<open>compute_losses\<close> returns otherwise.
\<close>

definition model_losses :: "('b, 'm, 't) env \<Rightarrow> nat \<Rightarrow> pyfloat list" where
  "model_losses e uid_i =
     (case load_model e uid_i of
        None \<Rightarrow> map (\<lambda>_. PInf) (batches e)
      | Some model_i \<Rightarrow> compute_losses e model_i (batches e))"

text \<open>\<open>sum(losses) / len(losses)\<close>: dividing by the length 0 raises.\<close>

definition average_loss :: "pyfloat list \<Rightarrow> error + pyfloat" where
  "average_loss losses =
     (if length losses = 0 then Inl ZeroDivisionError
      else Inr (fl_div (fl_sum losses) (Fin (real (length losses)))))"

text \<open>
  The loop that fills \<open>losses_per_uid\<close> (a dict, here a function of the uid) and
  computes each average for the log.
\<close>

fun compute_model_losses ::
  "('b, 'm, 't) env \<Rightarrow> nat list \<Rightarrow> (nat \<Rightarrow> pyfloat list) \<Rightarrow> error + (nat \<Rightarrow> pyfloat list)" where
  "compute_model_losses e [] losses_per_uid = Inr losses_per_uid"
| "compute_model_losses e (uid_i # rest) losses_per_uid =
     (let losses = model_losses e uid_i in
      case average_loss losses of
        Inl err \<Rightarrow> Inl err
      | Inr _ \<Rightarrow> compute_model_losses e rest (losses_per_uid(uid_i := losses)))"

text \<open>\<open>losses[batch_idx]\<close>: an index past the end raises.\<close>

definition loss_at :: "pyfloat list \<Rightarrow> nat \<Rightarrow> error + pyfloat" where
  "loss_at losses batch_idx =
     (if batch_idx < length losses then Inr (losses ! batch_idx) else Inl IndexError)"

text \<open>Python's \<open>a / b\<close> on two integers.\<close>

definition py_truediv :: "nat \<Rightarrow> nat \<Rightarrow> error + real" where
  "py_truediv a b = (if b = 0 then Inl ZeroDivisionError else Inr (real a / real b))"

text \<open>
  The innermost loop, over the batch indices, for one pair \<open>(uid_i, uid_j)\<close>. The
  state is the dict \<open>wins\<close> and the counter \<open>total_matches\<close>.
\<close>

fun batch_loop ::
  "(pyfloat \<Rightarrow> pyfloat \<Rightarrow> 't \<Rightarrow> 't \<Rightarrow> bool) \<Rightarrow> (nat \<Rightarrow> pyfloat list) \<Rightarrow> nat \<Rightarrow> 't \<Rightarrow> nat \<Rightarrow> 't \<Rightarrow>
   nat list \<Rightarrow> (nat \<Rightarrow> nat) \<times> nat \<Rightarrow> error + ((nat \<Rightarrow> nat) \<times> nat)" where
  "batch_loop cmp lpu uid_i time_i uid_j time_j [] st = Inr st"
| "batch_loop cmp lpu uid_i time_i uid_j time_j (batch_idx # rest) (wins, total_matches) =
     (case loss_at (lpu uid_i) batch_idx of
        Inl err \<Rightarrow> Inl err
      | Inr loss_i \<Rightarrow>
          (case loss_at (lpu uid_j) batch_idx of
             Inl err \<Rightarrow> Inl err
           | Inr loss_j \<Rightarrow>
               batch_loop cmp lpu uid_i time_i uid_j time_j rest
                 (wins(uid_i := wins uid_i + (if cmp loss_i loss_j time_i time_j then 1 else 0)),
                  total_matches + 1)))"

text \<open>The loop over \<open>j, uid_j\<close>, which skips \<open>i = j\<close>.\<close>

fun opponent_loop ::
  "(pyfloat \<Rightarrow> pyfloat \<Rightarrow> 't \<Rightarrow> 't \<Rightarrow> bool) \<Rightarrow> (nat \<Rightarrow> pyfloat list) \<Rightarrow> nat \<Rightarrow> nat \<Rightarrow> nat \<Rightarrow> 't \<Rightarrow>
   (nat \<times> nat \<times> 't) list \<Rightarrow> (nat \<Rightarrow> nat) \<times> nat \<Rightarrow> error + ((nat \<Rightarrow> nat) \<times> nat)" where
  "opponent_loop cmp lpu n_batches i uid_i time_i [] st = Inr st"
| "opponent_loop cmp lpu n_batches i uid_i time_i ((j, uid_j, time_j) # rest) st =
     (if i = j then opponent_loop cmp lpu n_batches i uid_i time_i rest st
      else
        (case batch_loop cmp lpu uid_i time_i uid_j time_j [0..<n_batches] st of
           Inl err \<Rightarrow> Inl err
         | Inr st' \<Rightarrow> opponent_loop cmp lpu n_batches i uid_i time_i rest st'))"

text \<open>
  The win rate of \<open>uid_i\<close> once its matches are counted:
  \<open>wins[uid_i] / total_matches if total_matches > 0 else 0\<close>.
\<close>

definition win_rate_of :: "nat \<Rightarrow> nat \<Rightarrow> error + real" where
  "win_rate_of wins_i total_matches =
     (if total_matches > 0 then py_truediv wins_i total_matches else Inr 0)"

text \<open>
  The loop over \<open>i, uid_i\<close>: \<open>total_matches\<close> starts at 0 for each \<open>i\<close>, and the win
  rate is stored after the matches of \<open>uid_i\<close>. \<open>everyone\<close> is \<open>enumerate(uids)\<close> with
  the timestamps.
\<close>

fun candidate_loop ::
  "(pyfloat \<Rightarrow> pyfloat \<Rightarrow> 't \<Rightarrow> 't \<Rightarrow> bool) \<Rightarrow> (nat \<Rightarrow> pyfloat list) \<Rightarrow> nat \<Rightarrow>
   (nat \<times> nat \<times> 't) list \<Rightarrow> (nat \<times> nat \<times> 't) list \<Rightarrow> (nat \<Rightarrow> nat) \<times> (nat \<Rightarrow> real) \<Rightarrow>
   error + ((nat \<Rightarrow> nat) \<times> (nat \<Rightarrow> real))" where
  "candidate_loop cmp lpu n_batches everyone [] st = Inr st"
| "candidate_loop cmp lpu n_batches everyone ((i, uid_i, time_i) # rest) (wins, win_rate) =
     (case opponent_loop cmp lpu n_batches i uid_i time_i everyone (wins, 0) of
        Inl err \<Rightarrow> Inl err
      | Inr (wins', total_matches) \<Rightarrow>
          (case win_rate_of (wins' uid_i) total_matches of
             Inl err \<Rightarrow> Inl err
           | Inr r \<Rightarrow>
               candidate_loop cmp lpu n_batches everyone rest (wins', win_rate(uid_i := r))))"

text \<open>
  ``Compute wins per uid'': both dicts start at 0 for every uid (a function that is 0
  everywhere), and the loop runs over \<open>enumerate(uids)\<close>.
\<close>

definition compute_wins ::
  "(pyfloat \<Rightarrow> pyfloat \<Rightarrow> 't \<Rightarrow> 't \<Rightarrow> bool) \<Rightarrow> (nat \<Rightarrow> pyfloat list) \<Rightarrow> nat \<Rightarrow> (nat \<times> 't) list \<Rightarrow>
   error + ((nat \<Rightarrow> nat) \<times> (nat \<Rightarrow> real))" where
  "compute_wins cmp lpu n_batches cands =
     candidate_loop cmp lpu n_batches (enumerate 0 cands) (enumerate 0 cands)
       (\<lambda>_. 0, \<lambda>_. 0)"

text \<open>Losses and wins of a round, from the effective uids.\<close>

definition round_scores ::
  "('b, 'm, 't) env \<Rightarrow> (nat \<times> 't) list \<Rightarrow> error + ((nat \<Rightarrow> nat) \<times> (nat \<Rightarrow> real))" where
  "round_scores e cands =
     (case compute_model_losses e (map fst cands) (\<lambda>_. []) of
        Inl err \<Rightarrow> Inl err
      | Inr losses_per_uid \<Rightarrow>
          compute_wins (iswin e) losses_per_uid (length (batches e)) cands)"

subsection \<open>\<open>run_step\<close>: weights and the next uids\<close>

text \<open>
  \<open>step_weights\<close>: the win rates of the uids as a tensor, divided by the temperature,
  through the softmax.
\<close>

definition step_weights :: "real \<Rightarrow> (nat \<Rightarrow> real) \<Rightarrow> nat list \<Rightarrow> pyfloat list" where
  "step_weights temp win_rate uids =
     softmax (map (\<lambda>uid. fl_div (Fin (win_rate uid)) (Fin temp)) uids)"

text \<open>
  \<open>new_weights[uid_i] = step_weights[i]\<close> for each uid in turn: a uid past the end of
  the tensor raises.
\<close>

fun scatter :: "pyfloat list \<Rightarrow> (nat \<times> pyfloat) list \<Rightarrow> error + pyfloat list" where
  "scatter new_weights [] = Inr new_weights"
| "scatter new_weights ((uid_i, w) # rest) =
     (if uid_i < length new_weights then scatter (new_weights[uid_i := w]) rest
      else Inl IndexError)"

text \<open>\<open>new_weights /= new_weights.sum()\<close>.\<close>

definition normalize :: "pyfloat list \<Rightarrow> pyfloat list" where
  "normalize new_weights = map (\<lambda>w. fl_div w (fl_sum new_weights)) new_weights"

text \<open>
  The round's vector \<open>new_weights\<close>: zeros of the size of \<open>self.weights\<close>, the step
  weights scattered into it, normalized.
\<close>

definition new_weights ::
  "real \<Rightarrow> nat \<Rightarrow> (nat \<Rightarrow> real) \<Rightarrow> nat list \<Rightarrow> error + pyfloat list" where
  "new_weights temp n win_rate uids =
     (case scatter (replicate n (Fin 0)) (zip uids (step_weights temp win_rate uids)) of
        Inl err \<Rightarrow> Inl err
      | Inr nw \<Rightarrow> Inr (normalize nw))"

text \<open>
  The moving average and its clean-up:
  \<open>(pt.alpha * self.weights + (1 - pt.alpha) * new_weights).nan_to_num(0.0)\<close>.
\<close>

definition moving_average :: "real \<Rightarrow> pyfloat list \<Rightarrow> pyfloat list \<Rightarrow> pyfloat list" where
  "moving_average a old new =
     map nan_to_num
       (map2 (\<lambda>w n. fl_add (fl_mul (Fin a) w) (fl_mul (Fin (1 - a)) n)) old new)"

text \<open>Python's slice \<open>xs[:n]\<close>: a negative \<open>n\<close> counts from the end.\<close>

definition py_take :: "int \<Rightarrow> 'a list \<Rightarrow> 'a list" where
  "py_take n xs = (if 0 \<le> n then take (nat n) xs else take (length xs - nat (- n)) xs)"

text \<open>
  \<open>sorted(win_rate, key=win_rate.get, reverse=True)\<close>: the keys of the dict, which
  are the uids in the order they were inserted, in a stable sort by descending win
  rate.
\<close>

definition ranked :: "(nat \<Rightarrow> real) \<Rightarrow> nat list \<Rightarrow> nat list" where
  "ranked win_rate uids = sort_key (\<lambda>uid. - win_rate uid) uids"

text \<open>The uids kept by rank: \<open>sorted(...)[:self.config.sample_min]\<close>.\<close>

definition top_uids :: "int \<Rightarrow> (nat \<Rightarrow> real) \<Rightarrow> nat list \<Rightarrow> nat list" where
  "top_uids n win_rate uids = py_take n (ranked win_rate uids)"

text \<open>
  \<open>run_step\<close>. An exception leaves the round before any field is written; otherwise
  the three fields are written in turn: the weights, the uids to evaluate (the top
  uids, then the pending ones added), and the pending uids (cleared). The call of
  \<open>log_step\<close> that ends the function writes no field and is left out. The model is
  sequential: the thread of \<open>update_models\<close> does not run between two statements of a
  round.
\<close>

definition run_step :: "('b, 'm, 't) env \<Rightarrow> validator \<Rightarrow> error + validator" where
  "run_step e v =
     (let cands = effective e v; uids = map fst cands in
      case round_scores e cands of
        Inl err \<Rightarrow> Inl err
      | Inr (wins, win_rate) \<Rightarrow>
          (case new_weights (temperature e) (length (weights v)) win_rate uids of
             Inl err \<Rightarrow> Inl err
           | Inr nw \<Rightarrow>
               Inr (v\<lparr>weights := moving_average (alpha e) (weights v) nw,
                      uids_to_eval :=
                        fset_of_list (top_uids (sample_min e) win_rate uids)
                          |\<union>| pending_uids_to_eval v,
                      pending_uids_to_eval := {||}\<rparr>)))"

text \<open>The round's vector \<open>new_weights\<close> as \<open>run_step\<close> computes it.\<close>

definition round_vector :: "('b, 'm, 't) env \<Rightarrow> validator \<Rightarrow> error + pyfloat list" where
  "round_vector e v =
     (let cands = effective e v in
      case round_scores e cands of
        Inl err \<Rightarrow> Inl err
      | Inr (wins, win_rate) \<Rightarrow>
          new_weights (temperature e) (length (weights v)) win_rate (map fst cands))"

subsection \<open>\<open>try_run_step\<close>\<close>

text \<open>
  How a call of \<open>try_run_step\<close> ends: it logs ``Finished running step.'', or it logs
  ``Failed to run step after ttl seconds'' (the \<open>TimeoutError\<close> branch), or the
  exception of \<open>run_step\<close> goes on to the caller.
\<close>

datatype step_report = Finished | TimedOut | Raised error

text \<open>
  The deadline of a round has passed when the round needs more than \<open>ttl\<close> seconds.
\<close>

definition deadline_elapsed :: "int \<Rightarrow> nat \<Rightarrow> bool" where
  "deadline_elapsed ttl seconds = (ttl < int seconds)"

text \<open>
  \<open>try_run_step\<close> runs \<open>run_step\<close> under \<open>asyncio.wait_for(..., ttl)\<close>. \<open>wait_for\<close>
  cancels a coroutine only where the coroutine awaits, and \<open>run_step\<close> awaits nothing:
  once started it runs to its end without the event loop, however many \<open>seconds\<close>
  that takes, and \<open>wait_for\<close> then returns its result. Only with \<open>ttl \<le> 0\<close> does
  \<open>wait_for\<close> cancel the task before it starts and raise \<open>TimeoutError\<close>. The
  result is the report and the validator after the call.
\<close>

definition try_run_step ::
  "int \<Rightarrow> nat \<Rightarrow> ('b, 'm, 't) env \<Rightarrow> validator \<Rightarrow> step_report \<times> validator" where
  "try_run_step ttl seconds e v =
     (if ttl \<le> 0 then (TimedOut, v)
      else
        (case run_step e v of
           Inl err \<Rightarrow> (Raised err, v)
         | Inr v' \<Rightarrow> (Finished, v')))"

subsection \<open>Quantities the statements refer to\<close>

text \<open>
  The number of batches on which \<open>uid_i\<close> wins against \<open>uid_j\<close>, and the number of
  wins of \<open>uid_i\<close> (at position \<open>i\<close>) against every other position of \<open>everyone\<close>.
  The loops above are proved to count exactly these.
\<close>

definition pair_wins ::
  "(pyfloat \<Rightarrow> pyfloat \<Rightarrow> 't \<Rightarrow> 't \<Rightarrow> bool) \<Rightarrow> (nat \<Rightarrow> pyfloat list) \<Rightarrow> nat \<Rightarrow> 't \<Rightarrow> nat \<Rightarrow> 't \<Rightarrow>
   nat list \<Rightarrow> nat" where
  "pair_wins cmp lpu uid_i time_i uid_j time_j bs =
     length (filter (\<lambda>b. cmp (lpu uid_i ! b) (lpu uid_j ! b) time_i time_j) bs)"

definition opp_wins ::
  "(pyfloat \<Rightarrow> pyfloat \<Rightarrow> 't \<Rightarrow> 't \<Rightarrow> bool) \<Rightarrow> (nat \<Rightarrow> pyfloat list) \<Rightarrow> nat \<Rightarrow> nat \<Rightarrow> nat \<Rightarrow> 't \<Rightarrow>
   (nat \<times> nat \<times> 't) list \<Rightarrow> nat" where
  "opp_wins cmp lpu n_batches i uid_i time_i everyone =
     (\<Sum>(j, uid_j, time_j)\<leftarrow>everyone.
        if i = j then 0 else pair_wins cmp lpu uid_i time_i uid_j time_j [0..<n_batches])"

text \<open>
  The softmax of the win rates over the temperature, on real numbers:
  \<open>exp (win_rate uid / T) / \<Sum>\<^sub>v exp (win_rate v / T)\<close>, the sum over the round's uids.
\<close>

definition softmax_score :: "real \<Rightarrow> (nat \<Rightarrow> real) \<Rightarrow> nat list \<Rightarrow> nat \<Rightarrow> real" where
  "softmax_score temp win_rate uids uid =
     exp (win_rate uid / temp) / (\<Sum>v\<leftarrow>uids. exp (win_rate v / temp))"

text \<open>The scores as a vector of length \<open>n\<close>: 0 at every uid that is not in the round.\<close>

definition scores :: "real \<Rightarrow> nat \<Rightarrow> (nat \<Rightarrow> real) \<Rightarrow> nat list \<Rightarrow> real list" where
  "scores temp n win_rate uids =
     map (\<lambda>i. if i \<in> set uids then softmax_score temp win_rate uids i else 0) [0..<n]"

subsection \<open>Example rounds\<close>

text \<open>The order \<open><\<close> of floats: every comparison with NaN is false.\<close>

fun fl_less :: "pyfloat \<Rightarrow> pyfloat \<Rightarrow> bool" where
  "fl_less NaN _ = False"
| "fl_less _ NaN = False"
| "fl_less (Fin a) (Fin b) = (a < b)"
| "fl_less PInf _ = False"
| "fl_less _ PInf = True"
| "fl_less NInf NInf = False"
| "fl_less NInf _ = True"
| "fl_less _ NInf = False"

text \<open>An example comparator: the strictly lower loss wins, whatever the timestamps.\<close>

definition lower_loss_wins :: "pyfloat \<Rightarrow> pyfloat \<Rightarrow> int \<Rightarrow> int \<Rightarrow> bool" where
  "lower_loss_wins loss_i loss_j time_i time_j = fl_less loss_i loss_j"

text \<open>
  An example environment with \<open>pt.alpha = a\<close> and \<open>sample_min = n\<close>: temperature 1,
  sets of the uids 0, 1 and 8 enumerated as CPython does (\<open>{0, 1}\<close> as 0, 1 and
  \<open>{1, 8}\<close> as 8, 1), metadata for every uid, one batch, and no model on disk for any
  uid.
\<close>

definition demo_env :: "real \<Rightarrow> int \<Rightarrow> (unit, unit, int) env" where
  "demo_env a n =
     \<lparr>alpha = a, temperature = 1, sample_min = n,
      set_order = (\<lambda>s. filter (\<lambda>uid. uid |\<in>| s) [8, 0, 1]),
      metadata = (\<lambda>uid. Some 0),
      batches = [()],
      load_model = (\<lambda>uid. None),
      compute_losses = (\<lambda>model bs. map (\<lambda>_. Fin 1) bs),
      iswin = lower_loss_wins\<rparr>"

text \<open>The validator before its first round: zero weights, one uid to evaluate.\<close>

definition first_round :: validator where
  "first_round = \<lparr>weights = [Fin 0], uids_to_eval = {|0|}, pending_uids_to_eval = {||}\<rparr>"

text \<open>Two uids, 1 and 8, that end a round with the same win rate.\<close>

definition tied_round :: validator where
  "tied_round =
     \<lparr>weights = replicate 9 (Fin 0), uids_to_eval = {|1, 8|}, pending_uids_to_eval = {||}\<rparr>"

text \<open>A validator with weights and no uid to evaluate.\<close>

definition idle_round :: validator where
  "idle_round =
     \<lparr>weights = [Fin (1 / 2), Fin (1 / 2)], uids_to_eval = {||}, pending_uids_to_eval = {||}\<rparr>"

text \<open>A validator whose weights sum to 1, with two uids to evaluate and one pending.\<close>

definition later_round :: validator where
  "later_round =
     \<lparr>weights = [Fin (1 / 4), Fin (3 / 4), Fin 0],
      uids_to_eval = {|0, 1|}, pending_uids_to_eval = {|2|}\<rparr>"

text \<open>
  The losses of the scenario of three uids on two batches: 1.0, 2.0 and 0.5 on both.
\<close>

definition scenario_losses :: "nat \<Rightarrow> pyfloat list" where
  "scenario_losses uid =
     (if uid = 0 then [Fin 1, Fin 1] else if uid = 1 then [Fin 2, Fin 2]
      else [Fin (1 / 2), Fin (1 / 2)])"

section \<open>Proofs: the block fetch and the sync loop\<close>

lemma update_models_iter_last:
  "try_get_block 10 (fst t) = Some b \<Longrightarrow> last_uid_update (update_models_iter t st) = b mod 256"
  by (auto simp: update_models_iter_def Let_def split: sync_result.splits)

lemma update_models_iter_same:
  "try_get_block 10 (fst t) = Some b \<Longrightarrow> b mod 256 = last_uid_update st \<Longrightarrow>
   update_models_iter t st = st"
  by (auto simp: update_models_iter_def Let_def split: sync_result.splits)

lemma update_models_iter_returns:
  "try_get_block 10 (fst t) = Some b \<Longrightarrow> b mod 256 \<noteq> last_uid_update st \<Longrightarrow>
   snd t = SyncReturns u \<Longrightarrow>
   update_models_iter t st =
     st\<lparr>validator_of := (validator_of st)
           \<lparr>pending_uids_to_eval := finsert (nat (b mod 256)) (pending_uids_to_eval (validator_of st))\<rparr>,
        last_uid_update := b mod 256, sync_calls := sync_calls st @ [b mod 256]\<rparr>"
  by (simp add: update_models_iter_def Let_def)

lemma update_models_iter_raises:
  "try_get_block 10 (fst t) = Some b \<Longrightarrow> b mod 256 \<noteq> last_uid_update st \<Longrightarrow>
   snd t = SyncRaises \<Longrightarrow>
   update_models_iter t st =
     st\<lparr>last_uid_update := b mod 256, sync_calls := sync_calls st @ [b mod 256],
        errors_logged := errors_logged st + 1\<rparr>"
  by (simp add: update_models_iter_def Let_def)

text \<open>
  C10. In terms of the worker's run: \<open>try_get_block\<close> returns \<open>None\<close> when the worker
  never exits, when it needs more than \<open>ttl\<close> to exit, and also when it exits within
  \<open>ttl\<close> because its query raised; it returns the block number when the worker exits
  within \<open>ttl\<close> having fetched it. So \<open>None\<close> does not mean that \<open>ttl\<close> elapsed, and a
  result \<open>Some b\<close> is the number fetched by a worker that exited in time.
\<close>

theorem try_get_block_results:
  "(exits_after w = None \<longrightarrow> try_get_block ttl w = None)
   \<and> (exits_after w = Some t \<and> ttl < int t \<longrightarrow> try_get_block ttl w = None)
   \<and> (exits_after w = Some t \<and> int t \<le> ttl \<and> chain_query w = QueryRaises \<longrightarrow>
        try_get_block ttl w = None)
   \<and> (exits_after w = Some t \<and> int t \<le> ttl \<and> chain_query w = QueryReturns b \<longrightarrow>
        try_get_block ttl w = Some b)
   \<and> ((try_get_block ttl w = None) =
        (exits_after w = None \<or> (\<exists>t'. exits_after w = Some t' \<and> ttl < int t')
         \<or> chain_query w = QueryRaises))
   \<and> ((try_get_block ttl w = Some b) =
        ((\<exists>t'. exits_after w = Some t' \<and> int t' \<le> ttl) \<and> chain_query w = QueryReturns b))"
  by (cases "chain_query w"; cases "exits_after w")
    (auto simp: try_get_block_def is_alive_def)

theorem try_get_block_results_witness:
  "try_get_block 10 \<lparr>exits_after = None, chain_query = QueryReturns 7\<rparr> = None
   \<and> try_get_block 0 \<lparr>exits_after = Some 3, chain_query = QueryReturns 7\<rparr> = None
   \<and> try_get_block 10 \<lparr>exits_after = Some 3, chain_query = QueryRaises\<rparr> = None
   \<and> try_get_block 10 \<lparr>exits_after = Some 3, chain_query = QueryReturns 7\<rparr> = Some 7"
proof -
  note hang = try_get_block_results
    [where w = "\<lparr>exits_after = None, chain_query = QueryReturns 7\<rparr>" and ttl = 10,
      THEN conjunct1, THEN mp]
  note late = try_get_block_results
    [where w = "\<lparr>exits_after = Some 3, chain_query = QueryReturns 7\<rparr>" and ttl = 0 and t = 3,
      THEN conjunct2, THEN conjunct1, THEN mp]
  note raised = try_get_block_results
    [where w = "\<lparr>exits_after = Some 3, chain_query = QueryRaises\<rparr>" and ttl = 10 and t = 3,
      THEN conjunct2, THEN conjunct2, THEN conjunct1, THEN mp]
  note fetched = try_get_block_results
    [where w = "\<lparr>exits_after = Some 3, chain_query = QueryReturns 7\<rparr>" and ttl = 10 and t = 3
      and b = 7,
      THEN conjunct2, THEN conjunct2, THEN conjunct2, THEN conjunct1, THEN mp]
  have "try_get_block 10 \<lparr>exits_after = None, chain_query = QueryReturns 7\<rparr> = None"
    by (rule hang) simp
  moreover have
    "try_get_block 0 \<lparr>exits_after = Some 3, chain_query = QueryReturns 7\<rparr> = None"
    by (rule late) simp
  moreover have "try_get_block 10 \<lparr>exits_after = Some 3, chain_query = QueryRaises\<rparr> = None"
    by (rule raised) simp
  moreover have
    "try_get_block 10 \<lparr>exits_after = Some 3, chain_query = QueryReturns 7\<rparr> = Some 7"
    by (rule fetched) simp
  ultimately show ?thesis by blast
qed

text \<open>
  C8. When the slot of an iteration equals the slot of the iteration before it, the
  iteration changes nothing: \<open>pt.graph.sync\<close> is not called and the pending set is
  left as it is. On blocks with the slots 5, 5, 6 the loop syncs 5 and 6 once each and
  adds each of them once.
\<close>

theorem update_models_skips_repeated_slot:
  "(try_get_block 10 (fst t1) = Some b1 \<and> try_get_block 10 (fst t2) = Some b2
      \<and> b1 mod 256 = b2 mod 256
     \<longrightarrow> update_models_iter t2 (update_models_iter t1 st) = update_models_iter t1 st)
   \<and> (b1 mod 256 = 5 \<and> b2 mod 256 = 5 \<and> b3 mod 256 = 6 \<longrightarrow>
        update_models [tick_ok b1 u1, tick_ok b2 u2, tick_ok b3 u3] v =
          \<lparr>validator_of =
             v\<lparr>pending_uids_to_eval := finsert 6 (finsert 5 (pending_uids_to_eval v))\<rparr>,
           last_uid_update = 6, sync_calls = [5, 6], errors_logged = 0\<rparr>)"
proof (intro conjI impI)
  assume "try_get_block 10 (fst t1) = Some b1 \<and> try_get_block 10 (fst t2) = Some b2
      \<and> b1 mod 256 = b2 mod 256"
  then show "update_models_iter t2 (update_models_iter t1 st) = update_models_iter t1 st"
    using update_models_iter_last [of t1 b1 st]
    by (intro update_models_iter_same [of t2 b2]) simp_all
next
  assume "b1 mod 256 = 5 \<and> b2 mod 256 = 5 \<and> b3 mod 256 = 6"
  then show "update_models [tick_ok b1 u1, tick_ok b2 u2, tick_ok b3 u3] v =
          \<lparr>validator_of =
             v\<lparr>pending_uids_to_eval := finsert 6 (finsert 5 (pending_uids_to_eval v))\<rparr>,
           last_uid_update = 6, sync_calls = [5, 6], errors_logged = 0\<rparr>"
    by (simp add: update_models_def update_models_iter_def tick_ok_def try_get_block_def
        is_alive_def Let_def)
qed

theorem update_models_skips_repeated_slot_witness:
  "update_models_iter (tick_ok 261 True) (update_models_iter (tick_ok 5 True)
       \<lparr>validator_of = empty_validator, last_uid_update = - 1, sync_calls = [],
        errors_logged = 0\<rparr>)
     = update_models_iter (tick_ok 5 True)
       \<lparr>validator_of = empty_validator, last_uid_update = - 1, sync_calls = [],
        errors_logged = 0\<rparr>
   \<and> update_models [tick_ok 5 True, tick_ok 261 False, tick_ok 6 True] empty_validator =
       \<lparr>validator_of = empty_validator\<lparr>pending_uids_to_eval := {|6, 5|}\<rparr>,
        last_uid_update = 6, sync_calls = [5, 6], errors_logged = 0\<rparr>"
  using update_models_skips_repeated_slot [of "tick_ok 5 True" 5 "tick_ok 261 True" 261
      "\<lparr>validator_of = empty_validator, last_uid_update = - 1, sync_calls = [], errors_logged = 0\<rparr>"
      6 True False True empty_validator]
  by (simp add: tick_ok_def try_get_block_def is_alive_def empty_validator_def)

text \<open>
  C9, as the code has it. An iteration that reaches the sync step records the call.
  When \<open>pt.graph.sync\<close> returns, the slot uid is in the pending set afterwards,
  whatever it returned. When it raises, the handler logs the error and the pending set
  is unchanged. In both cases the loop goes on with the remaining iterations, and a
  later iteration with another slot whose sync returns adds its uid.
\<close>

theorem update_models_sync_step:
  "(try_get_block 10 (fst t) = Some b \<and> b mod 256 \<noteq> last_uid_update st \<and> snd t = SyncReturns u
     \<longrightarrow> nat (b mod 256) |\<in>| pending_uids_to_eval (validator_of (update_models_iter t st))
         \<and> sync_calls (update_models_iter t st) = sync_calls st @ [b mod 256])
   \<and> (try_get_block 10 (fst t) = Some b \<and> b mod 256 \<noteq> last_uid_update st \<and> snd t = SyncRaises
     \<longrightarrow> update_models_iter t st =
           st\<lparr>last_uid_update := b mod 256, sync_calls := sync_calls st @ [b mod 256],
              errors_logged := errors_logged st + 1\<rparr>
         \<and> update_models_loop (t # ts) st =
             update_models_loop ts
               (st\<lparr>last_uid_update := b mod 256, sync_calls := sync_calls st @ [b mod 256],
                   errors_logged := errors_logged st + 1\<rparr>)
         \<and> (try_get_block 10 (fst t') = Some b' \<and> b' mod 256 \<noteq> b mod 256
               \<and> snd t' = SyncReturns u
             \<longrightarrow> nat (b' mod 256)
                   |\<in>| pending_uids_to_eval (validator_of (update_models_loop [t, t'] st))))"
proof (intro conjI impI)
  assume a: "try_get_block 10 (fst t) = Some b \<and> b mod 256 \<noteq> last_uid_update st
      \<and> snd t = SyncReturns u"
  then show "nat (b mod 256) |\<in>| pending_uids_to_eval (validator_of (update_models_iter t st))"
    by (simp add: update_models_iter_returns [of t b st u])
  from a show "sync_calls (update_models_iter t st) = sync_calls st @ [b mod 256]"
    by (simp add: update_models_iter_returns [of t b st u])
next
  assume a: "try_get_block 10 (fst t) = Some b \<and> b mod 256 \<noteq> last_uid_update st
      \<and> snd t = SyncRaises"
  then show r: "update_models_iter t st =
           st\<lparr>last_uid_update := b mod 256, sync_calls := sync_calls st @ [b mod 256],
              errors_logged := errors_logged st + 1\<rparr>"
    by (simp add: update_models_iter_raises)
  then show "update_models_loop (t # ts) st =
             update_models_loop ts
               (st\<lparr>last_uid_update := b mod 256, sync_calls := sync_calls st @ [b mod 256],
                   errors_logged := errors_logged st + 1\<rparr>)"
    by simp
  assume b: "try_get_block 10 (fst t') = Some b' \<and> b' mod 256 \<noteq> b mod 256
      \<and> snd t' = SyncReturns u"
  have "last_uid_update (update_models_iter t st) = b mod 256"
    using a update_models_iter_last by blast
  with b have "update_models_iter t' (update_models_iter t st) =
     (update_models_iter t st)\<lparr>validator_of := (validator_of (update_models_iter t st))
           \<lparr>pending_uids_to_eval := finsert (nat (b' mod 256))
               (pending_uids_to_eval (validator_of (update_models_iter t st)))\<rparr>,
        last_uid_update := b' mod 256,
        sync_calls := sync_calls (update_models_iter t st) @ [b' mod 256]\<rparr>"
    by (intro update_models_iter_returns) simp_all
  then show "nat (b' mod 256)
     |\<in>| pending_uids_to_eval (validator_of (update_models_loop [t, t'] st))"
    by simp
qed

theorem update_models_sync_step_witness:
  "nat (5 mod 256) |\<in>| pending_uids_to_eval (validator_of (update_models [tick_ok 5 False] empty_validator))
   \<and> sync_calls (update_models [tick_ok 5 False] empty_validator) = [5]
   \<and> update_models [tick_sync_fails 5] empty_validator =
       \<lparr>validator_of = empty_validator, last_uid_update = 5, sync_calls = [5],
        errors_logged = 1\<rparr>
   \<and> nat (6 mod 256)
       |\<in>| pending_uids_to_eval
             (validator_of (update_models [tick_sync_fails 5, tick_ok 6 True] empty_validator))"
  using
    update_models_sync_step [where t = "tick_ok 5 False" and b = 5 and u = False
      and st = "\<lparr>validator_of = empty_validator, last_uid_update = - 1, sync_calls = [],
                errors_logged = 0\<rparr>"]
    update_models_sync_step [where t = "tick_sync_fails 5" and b = 5 and u = True
      and st = "\<lparr>validator_of = empty_validator, last_uid_update = - 1, sync_calls = [],
                errors_logged = 0\<rparr>"
      and t' = "tick_ok 6 True" and b' = 6 and ts = "[]"]
  by (auto simp: update_models_def tick_ok_def tick_sync_fails_def try_get_block_def is_alive_def)

theorem update_models_sync_raises_counterexample:
  "sync_calls (update_models [tick_sync_fails 5] empty_validator) = [5]
   \<and> pending_uids_to_eval (validator_of (update_models [tick_sync_fails 5] empty_validator)) = {||}"
  by (simp add: update_models_def update_models_iter_def tick_sync_fails_def try_get_block_def
      is_alive_def empty_validator_def Let_def)

section \<open>Proofs: the scoring loops\<close>


lemma batch_loop_Inr:
  "batch_loop cmp lpu ui ti uj tj bs (wins, tm) = Inr (wins', tm') \<Longrightarrow>
     wins' = wins(ui := wins ui + pair_wins cmp lpu ui ti uj tj bs) \<and> tm' = tm + length bs"
proof (induction bs arbitrary: wins tm)
  case Nil
  then show ?case by (simp add: pair_wins_def)
next
  case (Cons b bs)
  from Cons.prems obtain li lj where
    li: "loss_at (lpu ui) b = Inr li" and lj: "loss_at (lpu uj) b = Inr lj"
    and rest: "batch_loop cmp lpu ui ti uj tj bs
        (wins(ui := wins ui + (if cmp li lj ti tj then 1 else 0)), tm + 1) = Inr (wins', tm')"
    by (auto split: sum.splits)
  from li have li': "li = lpu ui ! b" by (auto simp: loss_at_def split: if_splits)
  from lj have lj': "lj = lpu uj ! b" by (auto simp: loss_at_def split: if_splits)
  from Cons.IH[OF rest] show ?case
    by (auto simp: pair_wins_def li' lj')
qed

lemma batch_loop_total:
  "\<forall>b\<in>set bs. b < length (lpu ui) \<and> b < length (lpu uj) \<Longrightarrow>
   \<exists>r. batch_loop cmp lpu ui ti uj tj bs st = Inr r"
proof (induction bs arbitrary: st)
  case Nil
  then show ?case by simp
next
  case (Cons b bs)
  obtain wins tm where st: "st = (wins, tm)" by (cases st)
  from Cons show ?case by (simp add: st loss_at_def)
qed

lemma batch_loop_not_zerodiv:
  "batch_loop cmp lpu ui ti uj tj bs st \<noteq> Inl ZeroDivisionError"
proof (induction bs arbitrary: st)
  case Nil
  then show ?case by simp
next
  case (Cons b bs)
  obtain wins tm where st: "st = (wins, tm)" by (cases st)
  from Cons show ?case by (auto simp: st loss_at_def split: sum.splits)
qed

lemma opponent_loop_Inr:
  "opponent_loop cmp lpu nb i ui ti ev (wins, tm) = Inr (wins', tm') \<Longrightarrow>
     wins' = wins(ui := wins ui + opp_wins cmp lpu nb i ui ti ev)
     \<and> tm' = tm + nb * length (filter (\<lambda>x. fst x \<noteq> i) ev)"
proof (induction ev arbitrary: wins tm)
  case Nil
  then show ?case by (simp add: opp_wins_def)
next
  case (Cons x ev)
  obtain j uj tj where x: "x = (j, uj, tj)" by (cases x)
  show ?case
  proof (cases "i = j")
    case True
    with Cons.prems x have "opponent_loop cmp lpu nb i ui ti ev (wins, tm) = Inr (wins', tm')" by simp
    from Cons.IH[OF this] True x show ?thesis by (simp add: opp_wins_def)
  next
    case False
    with Cons.prems x obtain w1 t1 where
      b: "batch_loop cmp lpu ui ti uj tj [0..<nb] (wins, tm) = Inr (w1, t1)"
      and r: "opponent_loop cmp lpu nb i ui ti ev (w1, t1) = Inr (wins', tm')"
      by (auto split: sum.splits)
    from batch_loop_Inr[OF b] Cons.IH[OF r] False x show ?thesis
      by (auto simp: opp_wins_def)
  qed
qed

lemma opponent_loop_total:
  "\<forall>b<nb. b < length (lpu ui) \<and> (\<forall>x\<in>set ev. b < length (lpu (fst (snd x)))) \<Longrightarrow>
   \<exists>r. opponent_loop cmp lpu nb i ui ti ev st = Inr r"
proof (induction ev arbitrary: st)
  case Nil
  then show ?case by simp
next
  case (Cons x ev)
  obtain j uj tj where x: "x = (j, uj, tj)" by (cases x)
  have "\<exists>r. batch_loop cmp lpu ui ti uj tj [0..<nb] st = Inr r"
    using Cons.prems x by (intro batch_loop_total) auto
  then obtain r where r: "batch_loop cmp lpu ui ti uj tj [0..<nb] st = Inr r" ..
  have ih: "\<And>st. \<exists>r. opponent_loop cmp lpu nb i ui ti ev st = Inr r"
    using Cons.prems by (intro Cons.IH) auto
  show ?case using x r ih by (cases "i = j") auto
qed

lemma opponent_loop_not_zerodiv:
  "opponent_loop cmp lpu nb i ui ti ev st \<noteq> Inl ZeroDivisionError"
proof (induction ev arbitrary: st)
  case Nil
  then show ?case by simp
next
  case (Cons x ev)
  obtain j uj tj where x: "x = (j, uj, tj)" by (cases x)
  show ?case
  proof (cases "i = j")
    case True
    then show ?thesis using Cons x by simp
  next
    case False
    then show ?thesis using Cons x by (auto simp: batch_loop_not_zerodiv split: sum.splits)
  qed
qed

lemma pair_wins_le: "pair_wins cmp lpu ui ti uj tj bs \<le> length bs"
  by (simp add: pair_wins_def)

lemma opp_wins_le:
  "opp_wins cmp lpu nb i ui ti ev \<le> nb * length (filter (\<lambda>x. fst x \<noteq> i) ev)"
proof (induction ev)
  case Nil
  then show ?case by (simp add: opp_wins_def)
next
  case (Cons x ev)
  obtain j uj tj where x: "x = (j, uj, tj)" by (cases x)
  have "pair_wins cmp lpu ui ti uj tj [0..<nb] \<le> nb" using pair_wins_le[of cmp lpu ui ti uj tj "[0..<nb]"] by simp
  with Cons show ?case by (auto simp: opp_wins_def x)
qed

lemma others_enumerate:
  "i < length xs \<Longrightarrow> length (filter (\<lambda>x. fst x \<noteq> i) (enumerate 0 xs)) = length xs - 1"
proof -
  assume i: "i < length xs"
  have m: "length (filter (\<lambda>x. fst x \<noteq> i) ys) = length (filter (\<lambda>j. j \<noteq> i) (map fst ys))"
    for ys :: "(nat \<times> 'a) list"
    by (induction ys) auto
  have "length (filter (\<lambda>x. fst x \<noteq> i) (enumerate 0 xs)) = length (filter (\<lambda>j. j \<noteq> i) [0..<length xs])"
    by (simp add: m)
  also have "\<dots> = card {j. j < length xs \<and> j \<noteq> i}"
    by (subst distinct_length_filter) (auto intro: arg_cong[where f=card])
  also have "{j. j < length xs \<and> j \<noteq> i} = {..<length xs} - {i}" by auto
  also have "card \<dots> = length xs - 1" using i by simp
  finally show ?thesis .
qed


lemma win_rate_of_Inr: "\<exists>r. win_rate_of w tm = Inr r"
  by (simp add: win_rate_of_def py_truediv_def)

lemma win_rate_of_not_zerodiv: "win_rate_of w tm \<noteq> Inl e"
  by (simp add: win_rate_of_def py_truediv_def)

lemma win_rate_of_val:
  "win_rate_of w tm = Inr r \<Longrightarrow> r = (if 0 < tm then real w / real tm else 0)"
  by (auto simp: win_rate_of_def py_truediv_def split: if_splits)

lemma candidate_loop_Inr:
  "candidate_loop cmp lpu nb ev rest (wins, wr) = Inr (wins', wr') \<Longrightarrow>
   distinct (map (\<lambda>x. fst (snd x)) rest) \<Longrightarrow>
     (\<forall>u. u \<notin> (\<lambda>x. fst (snd x)) ` set rest \<longrightarrow> wins' u = wins u \<and> wr' u = wr u) \<and>
     (\<forall>(i, u, t) \<in> set rest.
        wins' u = wins u + opp_wins cmp lpu nb i u t ev \<and>
        wr' u = (if 0 < nb * length (filter (\<lambda>x. fst x \<noteq> i) ev)
                 then real (wins' u) / real (nb * length (filter (\<lambda>x. fst x \<noteq> i) ev))
                 else 0))"
proof (induction rest arbitrary: wins wr)
  case Nil
  then show ?case by simp
next
  case (Cons x rest)
  obtain i u t where x: "x = (i, u, t)" by (cases x)
  from Cons.prems(1) x obtain w1 tm r where
    o: "opponent_loop cmp lpu nb i u t ev (wins, 0) = Inr (w1, tm)"
    and wr: "win_rate_of (w1 u) tm = Inr r"
    and c: "candidate_loop cmp lpu nb ev rest (w1, wr(u := r)) = Inr (wins', wr')"
    by (auto split: sum.splits prod.splits)
  from opponent_loop_Inr[OF o] have
    w1: "w1 = wins(u := wins u + opp_wins cmp lpu nb i u t ev)"
    and tm: "tm = nb * length (filter (\<lambda>x. fst x \<noteq> i) ev)" by simp_all
  from Cons.prems(2) x have d: "distinct (map (\<lambda>x. fst (snd x)) rest)"
    and u: "u \<notin> (\<lambda>x. fst (snd x)) ` set rest" by auto
  note ih = Cons.IH[OF c d]
  from ih u have keep: "wins' u = w1 u" "wr' u = r" by auto
  have r: "r = (if 0 < tm then real (w1 u) / real tm else 0)"
    using win_rate_of_val[OF wr] .
  have head: "wins' u = wins u + opp_wins cmp lpu nb i u t ev \<and>
        wr' u = (if 0 < nb * length (filter (\<lambda>x. fst x \<noteq> i) ev)
                 then real (wins' u) / real (nb * length (filter (\<lambda>x. fst x \<noteq> i) ev))
                 else 0)"
    using keep r by (simp add: w1 tm)
  have tail: "\<forall>(i', u', t') \<in> set rest.
        wins' u' = wins u' + opp_wins cmp lpu nb i' u' t' ev \<and>
        wr' u' = (if 0 < nb * length (filter (\<lambda>x. fst x \<noteq> i') ev)
                 then real (wins' u') / real (nb * length (filter (\<lambda>x. fst x \<noteq> i') ev))
                 else 0)"
  proof (intro ballI, clarify)
    fix i' u' t' assume m: "(i', u', t') \<in> set rest"
    then have "u' \<noteq> u" using u by force
    with ih m show "wins' u' = wins u' + opp_wins cmp lpu nb i' u' t' ev \<and>
        wr' u' = (if 0 < nb * length (filter (\<lambda>x. fst x \<noteq> i') ev)
                 then real (wins' u') / real (nb * length (filter (\<lambda>x. fst x \<noteq> i') ev))
                 else 0)"
      by (auto simp: w1)
  qed
  have other: "\<forall>u'. u' \<notin> (\<lambda>x. fst (snd x)) ` set (x # rest) \<longrightarrow> wins' u' = wins u' \<and> wr' u' = wr u'"
    using ih by (auto simp: x w1)
  from head tail other show ?case by (simp add: x)
qed

lemma candidate_loop_total:
  "\<forall>x\<in>set ev. nb \<le> length (lpu (fst (snd x))) \<Longrightarrow> set rest \<subseteq> set ev \<Longrightarrow>
   \<exists>r. candidate_loop cmp lpu nb ev rest st = Inr r"
proof (induction rest arbitrary: st)
  case Nil
  then show ?case by simp
next
  case (Cons x rest)
  obtain i u t where x: "x = (i, u, t)" by (cases x)
  obtain wins wr where st: "st = (wins, wr)" by (cases st)
  from Cons.prems x have "nb \<le> length (lpu u)" by force
  with Cons.prems(1) have "\<exists>r. opponent_loop cmp lpu nb i u t ev (wins, 0) = Inr r"
    by (intro opponent_loop_total) force
  then obtain w1 tm where o: "opponent_loop cmp lpu nb i u t ev (wins, 0) = Inr (w1, tm)" by force
  obtain r where r: "win_rate_of (w1 u) tm = Inr r" using win_rate_of_Inr by blast
  have "\<exists>res. candidate_loop cmp lpu nb ev rest (w1, wr(u := r)) = Inr res"
    using Cons.prems by (intro Cons.IH) auto
  then show ?case by (simp add: x st o r)
qed

lemma candidate_loop_not_zerodiv:
  "candidate_loop cmp lpu nb ev rest st \<noteq> Inl ZeroDivisionError"
proof (induction rest arbitrary: st)
  case Nil
  then show ?case by simp
next
  case (Cons x rest)
  obtain i u t where x: "x = (i, u, t)" by (cases x)
  obtain wins wr where st: "st = (wins, wr)" by (cases st)
  show ?case
    using Cons.IH opponent_loop_not_zerodiv[of cmp lpu nb i u t ev "(wins, 0)"]
    by (auto simp: x st win_rate_of_not_zerodiv split: sum.splits)
qed

lemma enumerate_uids: "map (\<lambda>x. fst (snd x)) (enumerate 0 cands) = map fst cands"
proof -
  have "map (\<lambda>x. fst (snd x)) ys = map fst (map snd ys)" for ys :: "(nat \<times> 'c \<times> 'd) list"
    by (simp add: comp_def)
  from this[of "enumerate 0 cands"] show ?thesis by simp
qed

lemma in_enumerate:
  "(i, x) \<in> set (enumerate 0 xs) \<Longrightarrow> i < length xs \<and> x \<in> set xs"
  by (auto simp: in_set_enumerate_eq)

lemma compute_wins_Inr:
  assumes "compute_wins cmp lpu nb cands = Inr (wins, wr)"
    and "distinct (map fst cands)" and "uid \<in> fst ` set cands"
  shows "wins uid \<le> (length cands - 1) * nb \<and>
         wr uid = (if 0 < (length cands - 1) * nb
                   then real (wins uid) / real ((length cands - 1) * nb) else 0)"
proof -
  let ?ev = "enumerate 0 cands"
  from assms(3) obtain t where "(uid, t) \<in> set cands" by auto
  then obtain i where i: "i < length cands" "cands ! i = (uid, t)" by (auto simp: in_set_conv_nth)
  then have m: "(i, uid, t) \<in> set ?ev" by (auto simp: in_set_enumerate_eq)
  have d: "distinct (map (\<lambda>x. fst (snd x)) ?ev)" using assms(2) by (simp add: enumerate_uids)
  from candidate_loop_Inr[OF assms(1)[unfolded compute_wins_def] d] m
  have w: "wins uid = 0 + opp_wins cmp lpu nb i uid t ?ev"
    and r: "wr uid = (if 0 < nb * length (filter (\<lambda>x. fst x \<noteq> i) ?ev)
                 then real (wins uid) / real (nb * length (filter (\<lambda>x. fst x \<noteq> i) ?ev))
                 else 0)" by auto
  have n: "length (filter (\<lambda>x. fst x \<noteq> i) ?ev) = length cands - 1"
    using others_enumerate[OF i(1)] .
  from w opp_wins_le[of cmp lpu nb i uid t ?ev] have "wins uid \<le> (length cands - 1) * nb"
    by (simp add: n mult.commute)
  moreover from r have "wr uid = (if 0 < (length cands - 1) * nb
                   then real (wins uid) / real ((length cands - 1) * nb) else 0)"
    by (simp add: n mult.commute)
  ultimately show ?thesis by simp
qed

lemma compute_wins_total:
  "\<forall>uid\<in>fst ` set cands. nb \<le> length (lpu uid) \<Longrightarrow>
   \<exists>wins wr. compute_wins cmp lpu nb cands = Inr (wins, wr)"
proof -
  assume a: "\<forall>uid\<in>fst ` set cands. nb \<le> length (lpu uid)"
  have "\<forall>x\<in>set (enumerate 0 cands). nb \<le> length (lpu (fst (snd x)))"
  proof
    fix x assume "x \<in> set (enumerate 0 cands)"
    moreover obtain i y where "x = (i, y)" by (cases x)
    ultimately have "snd x \<in> set cands" using in_enumerate[of i y cands] by simp
    with a show "nb \<le> length (lpu (fst (snd x)))" by auto
  qed
  from candidate_loop_total[OF this subset_refl, of cmp "(\<lambda>_. 0, \<lambda>_. 0)"]
  show ?thesis by (auto simp: compute_wins_def)
qed

section \<open>Proofs: softmax, scatter and the moving average\<close>


lemma fl_sum_Fin: "fl_sum (map Fin xs) = Fin (sum_list xs)"
  by (induction xs) (simp_all add: fl_sum_def)

lemma foldr_fl_max_Fin: "foldr fl_max (map Fin rest) (Fin x) = Fin (foldr max rest x)"
  by (induction rest) simp_all

lemma sum_list_exp_nonneg: "0 \<le> (\<Sum>z\<leftarrow>xs. exp (z::real))"
  by (induction xs) simp_all

lemma sum_list_exp_pos: "xs \<noteq> [] \<Longrightarrow> 0 < (\<Sum>z\<leftarrow>xs. exp (z::real))"
  by (cases xs) (simp_all add: add_pos_nonneg sum_list_exp_nonneg)

lemma sum_list_exp_shift: "(\<Sum>z\<leftarrow>xs. exp (z - m)) = (\<Sum>z\<leftarrow>xs. exp (z::real)) / exp m"
  by (induction xs) (simp_all add: exp_diff add_divide_distrib)

lemma softmax_Cons:
  "softmax (x # rest) =
     map (\<lambda>e. fl_div e (fl_sum (map (\<lambda>y. fl_exp (fl_sub y (foldr fl_max rest x))) (x # rest))))
       (map (\<lambda>y. fl_exp (fl_sub y (foldr fl_max rest x))) (x # rest))"
  by (simp add: softmax_def Let_def)

lemma fl_div_Fin_map: "s \<noteq> 0 \<Longrightarrow> map (\<lambda>e. fl_div e (Fin s)) (map Fin ys) = map (\<lambda>y. Fin (y / s)) ys"
  by simp

lemma softmax_Fin:
  "softmax (map Fin xs) = map (\<lambda>y. Fin (exp y / (\<Sum>z\<leftarrow>xs. exp z))) xs"
proof (cases xs)
  case Nil
  then show ?thesis by (simp add: softmax_def)
next
  case (Cons x rest)
  define m where "m = foldr max rest x"
  have mx: "foldr fl_max (map Fin rest) (Fin x) = Fin m"
    by (simp add: foldr_fl_max_Fin m_def)
  have es: "map (\<lambda>y. fl_exp (fl_sub y (Fin m))) (map Fin xs) = map Fin (map (\<lambda>y. exp (y - m)) xs)"
    by (simp add: fl_sub_def)
  have s: "(\<Sum>z\<leftarrow>xs. exp (z - m)) = (\<Sum>z\<leftarrow>xs. exp z) / exp m"
    by (rule sum_list_exp_shift)
  have pos: "0 < (\<Sum>z\<leftarrow>xs. exp z)" using Cons by (intro sum_list_exp_pos) simp
  then have nz: "(\<Sum>z\<leftarrow>xs. exp (z - m)) \<noteq> 0" by (simp add: s)
  have pt: "exp (y - m) / ((\<Sum>z\<leftarrow>xs. exp z) / exp m) = exp y / (\<Sum>z\<leftarrow>xs. exp z)" for y
    by (simp add: exp_diff)
  have "softmax (map Fin xs) = softmax (Fin x # map Fin rest)" using Cons by simp
  also have "\<dots> = map (\<lambda>e. fl_div e (fl_sum (map (\<lambda>y. fl_exp (fl_sub y (Fin m))) (map Fin xs))))
       (map (\<lambda>y. fl_exp (fl_sub y (Fin m))) (map Fin xs))"
    unfolding softmax_Cons mx using Cons by simp
  also have "\<dots> = map (\<lambda>e. fl_div e (Fin (\<Sum>z\<leftarrow>xs. exp (z - m)))) (map Fin (map (\<lambda>y. exp (y - m)) xs))"
    unfolding es fl_sum_Fin by (simp add: comp_def)
  also have "\<dots> = map (\<lambda>y. Fin (y / (\<Sum>z\<leftarrow>xs. exp (z - m)))) (map (\<lambda>y. exp (y - m)) xs)"
    using nz by (rule fl_div_Fin_map)
  also have "\<dots> = map (\<lambda>y. Fin (exp y / (\<Sum>z\<leftarrow>xs. exp z))) xs"
    unfolding s by (simp only: map_map comp_def pt)
  finally show ?thesis .
qed


lemma step_weights_Fin:
  assumes "temp \<noteq> 0"
  shows "step_weights temp wr uids = map (\<lambda>u. Fin (softmax_score temp wr uids u)) uids"
proof -
  have "map (\<lambda>uid. fl_div (Fin (wr uid)) (Fin temp)) uids = map Fin (map (\<lambda>u. wr u / temp) uids)"
    using assms by simp
  then have "step_weights temp wr uids = softmax (map Fin (map (\<lambda>u. wr u / temp) uids))"
    by (simp only: step_weights_def)
  also have "\<dots> = map (\<lambda>u. Fin (softmax_score temp wr uids u)) uids"
    unfolding softmax_Fin by (simp add: softmax_score_def comp_def)
  finally show ?thesis .
qed

lemma softmax_score_pos: "uid \<in> set uids \<Longrightarrow> 0 < softmax_score temp wr uids uid"
proof -
  assume "uid \<in> set uids"
  then have "map (\<lambda>v. wr v / temp) uids \<noteq> []" by auto
  from sum_list_exp_pos[OF this] have "0 < (\<Sum>v\<leftarrow>uids. exp (wr v / temp))" by (simp add: comp_def)
  then show ?thesis by (simp add: softmax_score_def)
qed

lemma softmax_score_sum:
  assumes "uids \<noteq> []"
  shows "(\<Sum>u\<leftarrow>uids. softmax_score temp wr uids u) = 1"
proof -
  from assms have "map (\<lambda>v. wr v / temp) uids \<noteq> []" by auto
  from sum_list_exp_pos[OF this] have pos: "0 < (\<Sum>v\<leftarrow>uids. exp (wr v / temp))" by (simp add: comp_def)
  have "(\<Sum>u\<leftarrow>uids. f u / c) = (\<Sum>u\<leftarrow>uids. f u) / c" for f :: "nat \<Rightarrow> real" and c
    by (induction uids) (simp_all add: add_divide_distrib)
  then have "(\<Sum>u\<leftarrow>uids. softmax_score temp wr uids u)
      = (\<Sum>v\<leftarrow>uids. exp (wr v / temp)) / (\<Sum>v\<leftarrow>uids. exp (wr v / temp))"
    unfolding softmax_score_def .
  with pos show ?thesis by simp
qed

lemma zip_map_self: "zip xs (map g xs) = map (\<lambda>x. (x, g x)) xs"
  by (induction xs) simp_all

lemma scatter_map:
  "scatter (map Fin zs) (map (\<lambda>u. (u, Fin (f u))) us) =
     (if \<forall>u\<in>set us. u < length zs
      then Inr (map (\<lambda>i. Fin (if i \<in> set us then f i else zs ! i)) [0..<length zs])
      else Inl IndexError)"
proof (induction us arbitrary: zs)
  case Nil
  have "map (\<lambda>i. Fin (zs ! i)) [0..<length zs] = map Fin (map ((!) zs) [0..<length zs])"
    by (simp add: comp_def)
  also have "\<dots> = map Fin zs" by (simp only: map_nth)
  finally show ?case by simp
next
  case (Cons u us)
  show ?case
  proof (cases "u < length zs")
    case False
    then show ?thesis by auto
  next
    case True
    have upd: "(map Fin zs)[u := Fin (f u)] = map Fin (zs[u := f u])" by (simp add: map_update)
    have "scatter (map Fin zs) (map (\<lambda>u. (u, Fin (f u))) (u # us))
        = scatter (map Fin (zs[u := f u])) (map (\<lambda>u. (u, Fin (f u))) us)"
      using True by (simp add: upd)
    also have "\<dots> = (if \<forall>u'\<in>set us. u' < length zs
      then Inr (map (\<lambda>i. Fin (if i \<in> set us then f i else zs[u := f u] ! i)) [0..<length zs])
      else Inl IndexError)"
      using Cons.IH[of "zs[u := f u]"] by simp
    also have "\<dots> = (if \<forall>u'\<in>set (u # us). u' < length zs
      then Inr (map (\<lambda>i. Fin (if i \<in> set (u # us) then f i else zs ! i)) [0..<length zs])
      else Inl IndexError)"
      using True by (auto simp: nth_list_update)
    finally show ?thesis .
  qed
qed

lemma sum_scattered:
  assumes "distinct us" and "\<forall>u\<in>set us. u < n"
  shows "(\<Sum>i\<leftarrow>[0..<n]. if i \<in> set us then f i else (0::real)) = (\<Sum>u\<leftarrow>us. f u)"
proof -
  have "(\<Sum>i\<leftarrow>[0..<n]. if i \<in> set us then f i else 0) = (\<Sum>i\<in>{0..<n}. if i \<in> set us then f i else 0)"
    by (simp add: interv_sum_list_conv_sum_set_nat)
  also have "\<dots> = (\<Sum>i\<in>{0..<n} \<inter> set us. f i)"
    by (rule sum.inter_restrict[symmetric]) simp
  also have "{0..<n} \<inter> set us = set us" using assms(2) by auto
  also have "sum f (set us) = (\<Sum>u\<leftarrow>us. f u)"
    using assms(1) by (simp add: sum_list_distinct_conv_sum_set)
  finally show ?thesis .
qed

lemma normalize_unit: "sum_list rs = 1 \<Longrightarrow> normalize (map Fin rs) = map Fin rs"
  by (simp add: normalize_def fl_sum_Fin)

lemma normalize_zeros: "normalize (replicate n (Fin 0)) = replicate n NaN"
proof -
  have "replicate n (Fin 0) = map Fin (replicate n 0)" by simp
  then have "fl_sum (replicate n (Fin 0)) = Fin 0" by (simp only: fl_sum_Fin) (simp add: sum_list_replicate)
  then show ?thesis by (simp add: normalize_def)
qed

lemma new_weights_Fin:
  assumes "temp \<noteq> 0" "uids \<noteq> []" "distinct uids" "\<forall>u\<in>set uids. u < n"
  shows "new_weights temp n wr uids = Inr (map Fin (scores temp n wr uids))"
    and "sum_list (scores temp n wr uids) = 1"
proof -
  show s: "sum_list (scores temp n wr uids) = 1"
    unfolding scores_def using sum_scattered[OF assms(3,4)] softmax_score_sum[OF assms(2)] by simp
  have "replicate n (Fin 0) = map Fin (replicate n 0)" by simp
  then have "scatter (replicate n (Fin 0)) (zip uids (step_weights temp wr uids))
      = scatter (map Fin (replicate n 0)) (map (\<lambda>u. (u, Fin (softmax_score temp wr uids u))) uids)"
    by (simp only: step_weights_Fin[OF assms(1)] zip_map_self)
  also have "\<dots> = Inr (map (\<lambda>i. Fin (if i \<in> set uids then softmax_score temp wr uids i else replicate n 0 ! i)) [0..<n])"
    unfolding scatter_map using assms(4) by simp
  also have "\<dots> = Inr (map Fin (scores temp n wr uids))"
    by (simp add: scores_def)
  finally show "new_weights temp n wr uids = Inr (map Fin (scores temp n wr uids))"
    by (simp add: new_weights_def normalize_unit[OF s])
qed

lemma new_weights_empty: "new_weights temp n wr [] = Inr (replicate n NaN)"
  by (simp add: new_weights_def step_weights_def softmax_def normalize_zeros)

lemma new_weights_Inr_length: "new_weights temp n wr uids = Inr nw \<Longrightarrow> length nw = n"
proof -
  have l: "scatter xs ps = Inr ys \<Longrightarrow> length ys = length xs" for xs ps ys
    by (induction xs ps arbitrary: ys rule: scatter.induct) (auto split: if_splits)
  assume "new_weights temp n wr uids = Inr nw"
  then show ?thesis by (auto simp: new_weights_def normalize_def split: sum.splits dest: l)
qed

lemma moving_average_Fin:
  "moving_average a (map Fin ws) (map Fin rs) = map Fin (map2 (\<lambda>w r. a * w + (1 - a) * r) ws rs)"
  by (simp add: moving_average_def zip_map_map comp_def split_def)

lemma moving_average_sum:
  "length ws = length rs \<Longrightarrow>
   sum_list (map2 (\<lambda>w r. a * w + (1 - a) * r) ws rs) = a * sum_list ws + (1 - a) * sum_list (rs::real list)"
  by (induction ws rs rule: list_induct2) (simp_all add: algebra_simps)

lemma moving_average_no_nan: "x \<in> set (moving_average a old new) \<Longrightarrow> \<exists>r. x = Fin r"
proof -
  have "\<exists>r. nan_to_num y = Fin r" for y by (cases y) simp_all
  moreover assume "x \<in> set (moving_average a old new)"
  ultimately show ?thesis by (auto simp: moving_average_def)
qed

section \<open>Proofs: the round\<close>


lemma pull_uids_fst: "map fst (pull_uids meta us) = filter (\<lambda>u. meta u \<noteq> None) us"
  by (induction us) (auto split: option.splits)

lemma effective_distinct:
  "distinct (set_order e (uids_to_eval v)) \<Longrightarrow> distinct (map fst (effective e v))"
  by (simp add: effective_def pull_uids_fst)

lemma compute_model_losses_Inr:
  "compute_model_losses e uids d = Inr lpu \<Longrightarrow>
   lpu u = (if u \<in> set uids then model_losses e u else d u)"
proof (induction uids arbitrary: d)
  case Nil
  then show ?case by simp
next
  case (Cons x uids)
  from Cons.prems have "compute_model_losses e uids (d(x := model_losses e x)) = Inr lpu"
    by (auto simp: Let_def split: sum.splits)
  from Cons.IH[OF this] show ?case by auto
qed

lemma round_scores_Inr:
  assumes "round_scores e cands = Inr (wins, wr)"
  obtains lpu where "\<forall>u\<in>fst ` set cands. lpu u = model_losses e u"
    and "compute_wins (iswin e) lpu (length (batches e)) cands = Inr (wins, wr)"
proof -
  from assms obtain lpu where
    l: "compute_model_losses e (map fst cands) (\<lambda>_. []) = Inr lpu"
    and c: "compute_wins (iswin e) lpu (length (batches e)) cands = Inr (wins, wr)"
    by (auto simp: round_scores_def split: sum.splits)
  have "lpu u = model_losses e u" if "u \<in> fst ` set cands" for u
    using compute_model_losses_Inr[OF l, of u] that by simp
  then have "\<forall>u\<in>fst ` set cands. lpu u = model_losses e u" by blast
  with c show ?thesis using that by blast
qed

lemma py_take_length: "0 \<le> n \<Longrightarrow> length (py_take n xs) \<le> nat n"
  by (simp add: py_take_def)

lemma fcard_fset_of_list_le: "fcard (fset_of_list xs) \<le> length xs"
  by (simp add: fcard.rep_eq fset_of_list.rep_eq card_length)

lemma run_step_Inr:
  assumes "run_step e v = Inr v'"
  obtains wins wr nw where "round_scores e (effective e v) = Inr (wins, wr)"
    and "new_weights (temperature e) (length (weights v)) wr (map fst (effective e v)) = Inr nw"
    and "v' = v\<lparr>weights := moving_average (alpha e) (weights v) nw,
                uids_to_eval := fset_of_list (top_uids (sample_min e) wr (map fst (effective e v)))
                   |\<union>| pending_uids_to_eval v,
                pending_uids_to_eval := {||}\<rparr>"
  using assms by (auto simp: run_step_def Let_def split: sum.splits prod.splits)

lemma py_take_length_neg:
  "n < 0 \<Longrightarrow> int (length (py_take n xs)) = max 0 (int (length xs) + n)"
  by (simp add: py_take_def)

text \<open>
  C3, as the code has it. After a round that reaches the merge, every uid that was
  pending is among the uids to evaluate and the pending set is empty. The uids to
  evaluate are at most \<open>sample_min\<close> plus the number of uids that were pending when
  \<open>sample_min\<close> is not negative; for a negative \<open>sample_min\<close> the slice
  \<open>[:sample_min]\<close> keeps all but the last \<open>- sample_min\<close> uids of the ranking, and the
  bound is \<open>max 0 (k + sample_min)\<close> plus the number of pending uids, \<open>k\<close> the number of
  effective uids.
\<close>

theorem run_step_merges_pending:
  "run_step e v = Inr v' \<longrightarrow>
     pending_uids_to_eval v |\<subseteq>| uids_to_eval v'
     \<and> pending_uids_to_eval v' = {||}
     \<and> (0 \<le> sample_min e \<longrightarrow>
          int (fcard (uids_to_eval v')) \<le> sample_min e + int (fcard (pending_uids_to_eval v)))
     \<and> (sample_min e < 0 \<longrightarrow>
          int (fcard (uids_to_eval v')) \<le>
            max 0 (int (length (effective e v)) + sample_min e)
              + int (fcard (pending_uids_to_eval v)))"
proof
  assume "run_step e v = Inr v'"
  then obtain wins :: "nat \<Rightarrow> nat" and wr nw where
    v': "v' = v\<lparr>weights := moving_average (alpha e) (weights v) nw,
                uids_to_eval := fset_of_list (top_uids (sample_min e) wr (map fst (effective e v)))
                   |\<union>| pending_uids_to_eval v,
                pending_uids_to_eval := {||}\<rparr>"
    by (rule run_step_Inr)
  let ?top = "top_uids (sample_min e) wr (map fst (effective e v))"
  have union: "int (fcard (uids_to_eval v')) \<le> int (length ?top) + int (fcard (pending_uids_to_eval v))"
  proof -
    have "fcard (fset_of_list ?top |\<union>| pending_uids_to_eval v)
        \<le> fcard (fset_of_list ?top) + fcard (pending_uids_to_eval v)"
      by (simp add: fcard.rep_eq card_Un_le)
    also have "fcard (fset_of_list ?top) \<le> length ?top" by (rule fcard_fset_of_list_le)
    finally show ?thesis by (simp add: v')
  qed
  have size: "int (fcard (uids_to_eval v')) \<le> sample_min e + int (fcard (pending_uids_to_eval v))"
    if n: "0 \<le> sample_min e"
  proof -
    have "length ?top \<le> nat (sample_min e)"
      unfolding top_uids_def using n by (rule py_take_length)
    with n have "int (length ?top) \<le> sample_min e" by simp
    with union show ?thesis by simp
  qed
  have size_neg: "int (fcard (uids_to_eval v')) \<le>
      max 0 (int (length (effective e v)) + sample_min e) + int (fcard (pending_uids_to_eval v))"
    if n: "sample_min e < 0"
  proof -
    have "length (ranked wr (map fst (effective e v))) = length (effective e v)"
      by (simp add: ranked_def)
    with py_take_length_neg [OF n, of "ranked wr (map fst (effective e v))"]
    have "int (length ?top) = max 0 (int (length (effective e v)) + sample_min e)"
      by (simp only: top_uids_def)
    with union show ?thesis by simp
  qed
  show "pending_uids_to_eval v |\<subseteq>| uids_to_eval v'
     \<and> pending_uids_to_eval v' = {||}
     \<and> (0 \<le> sample_min e \<longrightarrow>
          int (fcard (uids_to_eval v')) \<le> sample_min e + int (fcard (pending_uids_to_eval v)))
     \<and> (sample_min e < 0 \<longrightarrow>
          int (fcard (uids_to_eval v')) \<le>
            max 0 (int (length (effective e v)) + sample_min e)
              + int (fcard (pending_uids_to_eval v)))"
    using size size_neg by (simp add: v')
qed

lemmas run_defs = run_step_def round_vector_def effective_def round_scores_def compute_wins_def
  model_losses_def average_loss_def loss_at_def win_rate_of_def py_truediv_def
  new_weights_def step_weights_def softmax_def normalize_def moving_average_def
  top_uids_def ranked_def py_take_def fl_sum_def fl_sub_def lower_loss_wins_def
  enumerate_eq_zip Let_def

theorem run_step_merges_pending_witness:
  "run_step (demo_env (1 / 2) 1) later_round =
     Inr \<lparr>weights = [Fin (3 / 8), Fin (5 / 8), Fin 0], uids_to_eval = {|0, 2|},
          pending_uids_to_eval = {||}\<rparr>
   \<and> pending_uids_to_eval later_round |\<subseteq>|
       uids_to_eval \<lparr>weights = [Fin (3 / 8), Fin (5 / 8), Fin 0], uids_to_eval = {|0, 2|},
          pending_uids_to_eval = {||}\<rparr>
   \<and> int (fcard (uids_to_eval \<lparr>weights = [Fin (3 / 8), Fin (5 / 8), Fin 0],
          uids_to_eval = {|0, 2|}, pending_uids_to_eval = {||}\<rparr>))
       \<le> sample_min (demo_env (1 / 2) 1) + int (fcard (pending_uids_to_eval later_round))
   \<and> run_step (demo_env (1 / 2) (- 1)) later_round =
     Inr \<lparr>weights = [Fin (3 / 8), Fin (5 / 8), Fin 0], uids_to_eval = {|0, 2|},
          pending_uids_to_eval = {||}\<rparr>
   \<and> int (fcard (uids_to_eval \<lparr>weights = [Fin (3 / 8), Fin (5 / 8), Fin 0],
          uids_to_eval = {|0, 2|}, pending_uids_to_eval = {||}\<rparr>))
       \<le> max 0 (int (length (effective (demo_env (1 / 2) (- 1)) later_round))
                  + sample_min (demo_env (1 / 2) (- 1)))
           + int (fcard (pending_uids_to_eval later_round))"
proof -
  have r: "run_step (demo_env (1 / 2) 1) later_round =
     Inr \<lparr>weights = [Fin (3 / 8), Fin (5 / 8), Fin 0], uids_to_eval = {|0, 2|},
          pending_uids_to_eval = {||}\<rparr>"
    by (simp add: demo_env_def later_round_def run_defs upt_rec numeral_eq_Suc finsert_commute)
  have r': "run_step (demo_env (1 / 2) (- 1)) later_round =
     Inr \<lparr>weights = [Fin (3 / 8), Fin (5 / 8), Fin 0], uids_to_eval = {|0, 2|},
          pending_uids_to_eval = {||}\<rparr>"
    by (simp add: demo_env_def later_round_def run_defs upt_rec numeral_eq_Suc finsert_commute)
  have n: "0 \<le> sample_min (demo_env (1 / 2) 1)" by (simp add: demo_env_def)
  have n': "sample_min (demo_env (1 / 2) (- 1)) < 0" by (simp add: demo_env_def)
  note t = run_step_merges_pending [where e = "demo_env (1 / 2) 1" and v = later_round,
      THEN mp, OF r]
  note t' = run_step_merges_pending [where e = "demo_env (1 / 2) (- 1)" and v = later_round,
      THEN mp, OF r']
  note a = t [THEN conjunct1]
  note b = t [THEN conjunct2, THEN conjunct2, THEN conjunct1, THEN mp, OF n]
  note c = t' [THEN conjunct2, THEN conjunct2, THEN conjunct2, THEN mp, OF n']
  from r a b r' c show ?thesis by blast
qed

text \<open>
  With \<open>sample_min = -1\<close>, two effective uids and one pending uid, the round keeps
  two uids, more than \<open>sample_min\<close> plus the one that was pending.
\<close>

theorem run_step_negative_sample_min_counterexample:
  "sample_min (demo_env (1 / 2) (- 1)) = - 1
   \<and> pending_uids_to_eval later_round = {|2|}
   \<and> run_step (demo_env (1 / 2) (- 1)) later_round =
       Inr \<lparr>weights = [Fin (3 / 8), Fin (5 / 8), Fin 0], uids_to_eval = {|0, 2|},
            pending_uids_to_eval = {||}\<rparr>
   \<and> fcard {|0, 2 :: nat|} = 2
   \<and> fcard {|2 :: nat|} = 1
   \<and> \<not> int (fcard {|0, 2 :: nat|}) \<le> - 1 + int (fcard {|2 :: nat|})"
proof -
  have r: "run_step (demo_env (1 / 2) (- 1)) later_round =
     Inr \<lparr>weights = [Fin (3 / 8), Fin (5 / 8), Fin 0], uids_to_eval = {|0, 2|},
          pending_uids_to_eval = {||}\<rparr>"
    by (simp add: demo_env_def later_round_def run_defs upt_rec numeral_eq_Suc finsert_commute)
  have c2: "fcard {|0, 2 :: nat|} = 2" by (simp add: fcard_finsert_if)
  have c1: "fcard {|2 :: nat|} = 1" by (simp add: fcard_finsert_if)
  from r c1 c2 show ?thesis by (simp add: demo_env_def later_round_def)
qed

text \<open>
  C5. The scoring loop never raises \<open>ZeroDivisionError\<close>. In a round that reaches it,
  every effective uid has at most \<open>(k - 1) * numBatches\<close> wins (\<open>k\<close> the number of
  effective uids), its win rate lies in [0, 1], is its wins over that number of
  matches when the number is positive, and is 0 when it is 0. The loop returns
  whenever every uid has a loss for every batch.
\<close>

theorem win_rate_in_unit_interval:
  "compute_wins cmp lpu n cands \<noteq> Inl ZeroDivisionError
   \<and> (round_scores e (effective e v) = Inr (wins, win_rate)
        \<and> distinct (set_order e (uids_to_eval v)) \<and> uid \<in> fst ` set (effective e v)
      \<longrightarrow> 0 \<le> win_rate uid \<and> win_rate uid \<le> 1
          \<and> wins uid \<le> (length (effective e v) - 1) * length (batches e)
          \<and> (0 < (length (effective e v) - 1) * length (batches e) \<longrightarrow>
               win_rate uid =
                 real (wins uid) / real ((length (effective e v) - 1) * length (batches e)))
          \<and> ((length (effective e v) - 1) * length (batches e) = 0 \<longrightarrow> win_rate uid = 0))
   \<and> ((\<forall>u\<in>fst ` set cands. n \<le> length (lpu u)) \<longrightarrow>
        (\<exists>wins' win_rate'. compute_wins cmp lpu n cands = Inr (wins', win_rate')))"
proof -
  have p1: "compute_wins cmp lpu n cands \<noteq> Inl ZeroDivisionError"
    unfolding compute_wins_def by (rule candidate_loop_not_zerodiv)
  have p3: "\<exists>wins' win_rate'. compute_wins cmp lpu n cands = Inr (wins', win_rate')"
    if "\<forall>u\<in>fst ` set cands. n \<le> length (lpu u)"
    using that by (rule compute_wins_total)
  let ?tm = "(length (effective e v) - 1) * length (batches e)"
  have p2: "0 \<le> win_rate uid \<and> win_rate uid \<le> 1 \<and> wins uid \<le> ?tm
          \<and> (0 < ?tm \<longrightarrow> win_rate uid = real (wins uid) / real ?tm)
          \<and> (?tm = 0 \<longrightarrow> win_rate uid = 0)"
    if a: "round_scores e (effective e v) = Inr (wins, win_rate)
        \<and> distinct (set_order e (uids_to_eval v)) \<and> uid \<in> fst ` set (effective e v)"
  proof -
    from a obtain l where
      c: "compute_wins (iswin e) l (length (batches e)) (effective e v) = Inr (wins, win_rate)"
      by (auto elim: round_scores_Inr)
    from a have d: "distinct (map fst (effective e v))" by (simp add: effective_distinct)
    from a have u: "uid \<in> fst ` set (effective e v)" by simp
    from compute_wins_Inr[OF c d u] have
      w: "wins uid \<le> ?tm"
      and r: "win_rate uid = (if 0 < ?tm then real (wins uid) / real ?tm else 0)"
      by simp_all
    define tm where "tm = ?tm"
    have "win_rate uid \<le> 1"
    proof (cases "0 < tm")
      case True
      from w have "real (wins uid) \<le> real tm" unfolding tm_def by (rule of_nat_mono)
      with True have "real (wins uid) / real tm \<le> 1" by (simp add: divide_le_eq_1)
      with r True show ?thesis unfolding tm_def by simp
    next
      case False
      with r show ?thesis unfolding tm_def by simp
    qed
    with w r show ?thesis by simp
  qed
  from p1 p2 p3 show ?thesis by blast
qed

theorem win_rate_in_unit_interval_witness:
  "round_scores (demo_env (1 / 2) 1) (effective (demo_env (1 / 2) 1) later_round) =
       Inr ((\<lambda>_. 0)(1 := 0, 0 := 0), (\<lambda>_. 0)(1 := 0, 0 := 0))
   \<and> 0 < (length (effective (demo_env (1 / 2) 1) later_round) - 1)
           * length (batches (demo_env (1 / 2) 1))
   \<and> ((\<lambda>_. 0)(1 := 0, 0 := 0)) (1::nat) \<le> (1::real)
   \<and> ((\<lambda>_. 0)(1 := 0, 0 := 0)) (1::nat) =
       real (((\<lambda>_. 0)(1 := 0, 0 := 0)) (1::nat))
         / real ((length (effective (demo_env (1 / 2) 1) later_round) - 1)
                  * length (batches (demo_env (1 / 2) 1)))
   \<and> round_scores (demo_env (1 / 2) 1) (effective (demo_env (1 / 2) 1) first_round) =
       Inr ((\<lambda>_. 0)(0 := 0), (\<lambda>_. 0)(0 := 0))
   \<and> (length (effective (demo_env (1 / 2) 1) first_round) - 1)
         * length (batches (demo_env (1 / 2) 1)) = 0
   \<and> ((\<lambda>_. 0)(0 := 0)) (0::nat) = (0::real)
   \<and> compute_wins lower_loss_wins scenario_losses 2 [(0, 0), (1, 0), (2, 0)] =
       Inr ((\<lambda>_. 0)(0 := 2, 1 := 0, 2 := 4), (\<lambda>_. 0)(0 := 1 / 2, 1 := 0, 2 := 1))
   \<and> (\<exists>wins' win_rate'.
         compute_wins lower_loss_wins scenario_losses 2 [(0, 0 :: int), (1, 0), (2, 0)] =
           Inr (wins', win_rate'))"
proof -
  have s: "compute_wins lower_loss_wins scenario_losses 2 [(0, 0), (1, 0), (2, 0)] =
     Inr ((\<lambda>_. 0)(0 := 2, 1 := 0, 2 := 4), (\<lambda>_. 0)(0 := 1 / 2, 1 := 0, 2 := 1))"
    by (simp add: scenario_losses_def run_defs upt_rec numeral_eq_Suc fun_eq_iff)
  have len: "\<forall>u\<in>fst ` set [(0, 0 :: int), (1, 0), (2, 0)]. 2 \<le> length (scenario_losses u)"
    by (simp add: scenario_losses_def)
  have h1: "round_scores (demo_env (1 / 2) 1) (effective (demo_env (1 / 2) 1) later_round) =
       Inr ((\<lambda>_. 0)(1 := 0, 0 := 0), (\<lambda>_. 0)(1 := 0, 0 := 0))
     \<and> distinct (set_order (demo_env (1 / 2) 1) (uids_to_eval later_round))
     \<and> 1 \<in> fst ` set (effective (demo_env (1 / 2) 1) later_round)"
    by (simp add: demo_env_def later_round_def run_defs upt_rec numeral_eq_Suc fun_eq_iff)
  have p1: "0 < (length (effective (demo_env (1 / 2) 1) later_round) - 1)
           * length (batches (demo_env (1 / 2) 1))"
    by (simp add: demo_env_def later_round_def effective_def)
  have h2: "round_scores (demo_env (1 / 2) 1) (effective (demo_env (1 / 2) 1) first_round) =
       Inr ((\<lambda>_. 0)(0 := 0), (\<lambda>_. 0)(0 := 0))
     \<and> distinct (set_order (demo_env (1 / 2) 1) (uids_to_eval first_round))
     \<and> 0 \<in> fst ` set (effective (demo_env (1 / 2) 1) first_round)"
    by (simp add: demo_env_def first_round_def run_defs fun_eq_iff)
  have p2: "(length (effective (demo_env (1 / 2) 1) first_round) - 1)
         * length (batches (demo_env (1 / 2) 1)) = 0"
    by (simp add: demo_env_def first_round_def effective_def)
  note t1 = win_rate_in_unit_interval [where e = "demo_env (1 / 2) 1" and v = later_round
      and wins = "(\<lambda>_. 0)(1 := 0, 0 := 0)" and win_rate = "(\<lambda>_. 0)(1 := 0, 0 := 0)" and uid = 1
      and cmp = lower_loss_wins and lpu = scenario_losses and n = 2
      and cands = "[(0, 0), (1, 0), (2, 0)]"]
  note t2 = win_rate_in_unit_interval [where e = "demo_env (1 / 2) 1" and v = first_round
      and wins = "(\<lambda>_. 0)(0 := 0)" and win_rate = "(\<lambda>_. 0)(0 := 0)" and uid = 0
      and cmp = lower_loss_wins and lpu = scenario_losses and n = 2
      and cands = "[(0, 0), (1, 0), (2, 0)]"]
  note a = t1 [THEN conjunct2, THEN conjunct1, THEN mp, OF h1]
  note b = t2 [THEN conjunct2, THEN conjunct1, THEN mp, OF h2]
  note c = t1 [THEN conjunct2, THEN conjunct2, THEN mp, OF len]
  note a1 = a [THEN conjunct2, THEN conjunct1]
  note a2 = a [THEN conjunct2, THEN conjunct2, THEN conjunct2, THEN conjunct1, THEN mp, OF p1]
  note b1 = b [THEN conjunct2, THEN conjunct2, THEN conjunct2, THEN conjunct2, THEN mp, OF p2]
  from h1 p1 a1 a2 h2 p2 b1 s c show ?thesis by blast
qed

section \<open>Proofs: the next uids to evaluate\<close>

lemma ranked_mset: "mset (ranked win_rate uids) = mset uids"
  by (simp add: ranked_def)

lemma ranked_sorted: "sorted_wrt (\<lambda>a b. win_rate b \<le> win_rate a) (ranked win_rate uids)"
proof -
  have "sorted (map (\<lambda>uid. - win_rate uid) (ranked win_rate uids))"
    unfolding ranked_def by (rule sorted_sort_key)
  then show ?thesis by (simp add: sorted_map)
qed

lemma ranked_stable:
  "filter (\<lambda>u. win_rate u = r) (ranked win_rate uids) = filter (\<lambda>u. win_rate u = r) uids"
proof -
  have "filter (\<lambda>u. - win_rate u = - r) (sort_key (\<lambda>uid. - win_rate uid) uids)
      = filter (\<lambda>u. - win_rate u = - r) uids"
    by (rule sort_key_stable)
  then show ?thesis by (simp add: ranked_def)
qed

text \<open>
  C6, as the code has it. After a round, the uids to evaluate are the pending uids
  together with the first \<open>sample_min\<close> uids of the ranking. The ranking is a
  permutation of the effective uids, in descending order of win rate, and uids with
  the same win rate keep the order in which the round enumerated them (the order in
  which Python iterates over the set \<open>uids_to_eval\<close>), which need not be the
  ascending order of the uids.
\<close>

theorem next_uids_are_top_ranked:
  "(run_step e v = Inr v' \<and> round_scores e (effective e v) = Inr (wins, win_rate) \<longrightarrow>
      uids_to_eval v' =
        fset_of_list (py_take (sample_min e) (ranked win_rate (map fst (effective e v))))
          |\<union>| pending_uids_to_eval v)
   \<and> (0 \<le> n \<longrightarrow> py_take n xs = take (nat n) xs)
   \<and> mset (ranked wr uids) = mset uids
   \<and> sorted_wrt (\<lambda>a b. wr b \<le> wr a) (ranked wr uids)
   \<and> filter (\<lambda>u. wr u = r) (ranked wr uids) = filter (\<lambda>u. wr u = r) uids"
proof -
  have "uids_to_eval v' =
        fset_of_list (py_take (sample_min e) (ranked win_rate (map fst (effective e v))))
          |\<union>| pending_uids_to_eval v"
    if a: "run_step e v = Inr v' \<and> round_scores e (effective e v) = Inr (wins, win_rate)"
  proof -
    from a obtain wins' wr' nw where
      s: "round_scores e (effective e v) = Inr (wins', wr')"
      and v': "v' = v\<lparr>weights := moving_average (alpha e) (weights v) nw,
                uids_to_eval := fset_of_list (top_uids (sample_min e) wr' (map fst (effective e v)))
                   |\<union>| pending_uids_to_eval v,
                pending_uids_to_eval := {||}\<rparr>"
      by (auto elim: run_step_Inr)
    from s a have "wr' = win_rate" by simp
    with v' show ?thesis by (simp add: top_uids_def)
  qed
  moreover have "py_take n xs = take (nat n) xs" if "0 \<le> n"
    using that by (simp add: py_take_def)
  ultimately show ?thesis
    using ranked_mset [of wr uids] ranked_sorted [of wr uids] ranked_stable [of wr r uids]
    by blast
qed

theorem next_uids_are_top_ranked_witness:
  "run_step (demo_env (1 / 2) 1) later_round =
     Inr \<lparr>weights = [Fin (3 / 8), Fin (5 / 8), Fin 0], uids_to_eval = {|0, 2|},
          pending_uids_to_eval = {||}\<rparr>
   \<and> {|0, 2|} =
       fset_of_list (py_take 1 (ranked ((\<lambda>_. 0)(1 := 0, 0 := 0)) [0, 1]))
         |\<union>| pending_uids_to_eval later_round
   \<and> py_take 1 [0, 1 :: nat] = take (nat 1) [0, 1]"
proof -
  have r: "run_step (demo_env (1 / 2) 1) later_round =
     Inr \<lparr>weights = [Fin (3 / 8), Fin (5 / 8), Fin 0], uids_to_eval = {|0, 2|},
          pending_uids_to_eval = {||}\<rparr>"
    by (simp add: demo_env_def later_round_def run_defs upt_rec numeral_eq_Suc finsert_commute)
  have s: "round_scores (demo_env (1 / 2) 1) (effective (demo_env (1 / 2) 1) later_round) =
       Inr ((\<lambda>_. 0)(1 := 0, 0 := 0), (\<lambda>_. 0)(1 := 0, 0 := 0))"
    by (simp add: demo_env_def later_round_def run_defs upt_rec numeral_eq_Suc fun_eq_iff)
  have u: "map fst (effective (demo_env (1 / 2) 1) later_round) = [0, 1]"
    by (simp add: demo_env_def later_round_def effective_def)
  have n: "sample_min (demo_env (1 / 2) 1) = 1" by (simp add: demo_env_def)
  from next_uids_are_top_ranked [where e = "demo_env (1 / 2) 1" and v = later_round
      and v' = "\<lparr>weights = [Fin (3 / 8), Fin (5 / 8), Fin 0], uids_to_eval = {|0, 2|},
          pending_uids_to_eval = {||}\<rparr>"
      and wins = "(\<lambda>_. 0)(1 := 0, 0 := 0)" and win_rate = "(\<lambda>_. 0)(1 := 0, 0 := 0)"
      and n = 1 and xs = "[0, 1 :: nat]"] r s
  show ?thesis by (simp add: u n)
qed

text \<open>
  The uids 1 and 8 end the round with the same win rate; Python enumerates the set
  \<open>{1, 8}\<close> as 8, 1; with \<open>sample_min = 1\<close> the round keeps uid 8, not uid 1.
\<close>

theorem next_uids_tie_counterexample:
  "map fst (effective (demo_env (1 / 2) 1) tied_round) = [8, 1]
   \<and> round_scores (demo_env (1 / 2) 1) (effective (demo_env (1 / 2) 1) tied_round) =
       Inr ((\<lambda>_. 0)(8 := 0, 1 := 0), (\<lambda>_. 0)(8 := 0, 1 := 0))
   \<and> run_step (demo_env (1 / 2) 1) tied_round =
       Inr \<lparr>weights = [Fin 0, Fin (1 / 4), Fin 0, Fin 0, Fin 0, Fin 0, Fin 0, Fin 0, Fin (1 / 4)],
            uids_to_eval = {|8|}, pending_uids_to_eval = {||}\<rparr>"
proof (intro conjI)
  show "map fst (effective (demo_env (1 / 2) 1) tied_round) = [8, 1]"
    by (simp add: demo_env_def tied_round_def effective_def)
  show "round_scores (demo_env (1 / 2) 1) (effective (demo_env (1 / 2) 1) tied_round) =
       Inr ((\<lambda>_. 0)(8 := 0, 1 := 0), (\<lambda>_. 0)(8 := 0, 1 := 0))"
    by (simp add: demo_env_def tied_round_def run_defs upt_rec numeral_eq_Suc fun_eq_iff)
  show "run_step (demo_env (1 / 2) 1) tied_round =
       Inr \<lparr>weights = [Fin 0, Fin (1 / 4), Fin 0, Fin 0, Fin 0, Fin 0, Fin 0, Fin 0, Fin (1 / 4)],
            uids_to_eval = {|8|}, pending_uids_to_eval = {||}\<rparr>"
    by (simp add: demo_env_def tied_round_def run_defs upt_rec numeral_eq_Suc)
qed

section \<open>Proofs: the weight update\<close>

lemma moving_average_length:
  "length new = length old \<Longrightarrow> length (moving_average a old new) = length old"
  by (simp add: moving_average_def)

lemma moving_average_nan:
  "moving_average a old (replicate (length old) NaN) = replicate (length old) (Fin 0)"
proof -
  have c: "fl_add x NaN = NaN" for x
    by (cases x) simp_all
  have "map2 (\<lambda>w n. fl_add (fl_mul (Fin a) w) (fl_mul (Fin (1 - a)) n)) old (replicate k NaN)
      = replicate (min (length old) k) NaN" for k
  proof (induction old arbitrary: k)
    case Nil
    then show ?case by simp
  next
    case (Cons x old)
    then show ?case by (cases k) (simp_all add: c)
  qed
  from this [of "length old"] show ?thesis by (simp add: moving_average_def)
qed

lemma map2_left: "length rs = length ws \<Longrightarrow> map2 (\<lambda>w r. 1 * w + (1 - 1) * r) ws rs = (ws::real list)"
  by (induction rs ws rule: list_induct2) simp_all

lemma map2_right: "length rs = length ws \<Longrightarrow> map2 (\<lambda>w r. 0 * w + (1 - 0) * r) ws rs = (rs::real list)"
  by (induction rs ws rule: list_induct2) simp_all

lemma run_step_weights:
  assumes "run_step e v = Inr v'" and "round_vector e v = Inr nw"
  shows "weights v' = moving_average (alpha e) (weights v) nw"
proof -
  from assms(1) obtain wins wr nw' where
    s: "round_scores e (effective e v) = Inr (wins, wr)"
    and n: "new_weights (temperature e) (length (weights v)) wr (map fst (effective e v)) = Inr nw'"
    and v': "v' = v\<lparr>weights := moving_average (alpha e) (weights v) nw',
                uids_to_eval := fset_of_list (top_uids (sample_min e) wr (map fst (effective e v)))
                   |\<union>| pending_uids_to_eval v,
                pending_uids_to_eval := {||}\<rparr>"
    by (rule run_step_Inr)
  from s n assms(2) have "nw = nw'" by (simp add: round_vector_def Let_def)
  with v' show ?thesis by simp
qed

lemma run_step_round_vector:
  assumes "run_step e v = Inr v'"
  obtains wins wr nw where "round_scores e (effective e v) = Inr (wins, wr)"
    and "new_weights (temperature e) (length (weights v)) wr (map fst (effective e v)) = Inr nw"
    and "round_vector e v = Inr nw"
    and "weights v' = moving_average (alpha e) (weights v) nw"
proof -
  from assms obtain wins wr nw where
    s: "round_scores e (effective e v) = Inr (wins, wr)"
    and n: "new_weights (temperature e) (length (weights v)) wr (map fst (effective e v)) = Inr nw"
    by (rule run_step_Inr)
  from s n have r: "round_vector e v = Inr nw" by (simp add: round_vector_def Let_def)
  from run_step_weights [OF assms r] s n r show ?thesis using that by blast
qed

text \<open>
  C7, as the code has it. The update stores
  \<open>nan_to_num (\<alpha> * W_old + (1 - \<alpha>) * W_round)\<close>. On vectors of finite entries this is
  \<open>\<alpha> * W_old + (1 - \<alpha>) * W_round\<close> entry by entry: \<open>\<alpha> = 1\<close> leaves the weights as they
  were and \<open>\<alpha> = 0\<close> replaces them with the round's vector. A round's vector of NaN
  entries (a round with no effective uid) gives the zero vector for every \<open>\<alpha>\<close>.
\<close>

theorem moving_average_blend:
  "moving_average a (map Fin ws) (map Fin rs) =
     map Fin (map2 (\<lambda>w r. a * w + (1 - a) * r) ws rs)
   \<and> (length rs = length ws \<longrightarrow> moving_average 1 (map Fin ws) (map Fin rs) = map Fin ws)
   \<and> (length rs = length ws \<longrightarrow> moving_average 0 (map Fin ws) (map Fin rs) = map Fin rs)
   \<and> (run_step e v = Inr v' \<and> round_vector e v = Inr nw \<longrightarrow>
        weights v' = moving_average (alpha e) (weights v) nw)
   \<and> moving_average a old (replicate (length old) NaN) = replicate (length old) (Fin 0)"
proof -
  have one: "moving_average 1 (map Fin ws) (map Fin rs) = map Fin ws" if "length rs = length ws"
    unfolding moving_average_Fin using that by (simp only: map2_left)
  have zero: "moving_average 0 (map Fin ws) (map Fin rs) = map Fin rs" if "length rs = length ws"
    unfolding moving_average_Fin using that by (simp only: map2_right)
  from one zero moving_average_Fin [of a ws rs] moving_average_nan [of a old]
    run_step_weights [of e v v' nw]
  show ?thesis by blast
qed

theorem moving_average_blend_witness:
  "moving_average 1 (map Fin [1 / 4, 3 / 4]) (map Fin [1 / 2, 1 / 2]) = map Fin [1 / 4, 3 / 4]
   \<and> moving_average 0 (map Fin [1 / 4, 3 / 4]) (map Fin [1 / 2, 1 / 2]) = map Fin [1 / 2, 1 / 2]
   \<and> weights \<lparr>weights = [Fin (1 / 2)], uids_to_eval = {|0|}, pending_uids_to_eval = {||}\<rparr>
       = moving_average (alpha (demo_env (1 / 2) 30)) (weights first_round) [Fin 1]"
proof -
  have r: "run_step (demo_env (1 / 2) 30) first_round =
     Inr \<lparr>weights = [Fin (1 / 2)], uids_to_eval = {|0|}, pending_uids_to_eval = {||}\<rparr>"
    by (simp add: demo_env_def first_round_def run_defs)
  have n: "round_vector (demo_env (1 / 2) 30) first_round = Inr [Fin 1]"
    by (simp add: demo_env_def first_round_def run_defs)
  from moving_average_blend [where ws = "[1 / 4, 3 / 4]" and rs = "[1 / 2, 1 / 2]" and a = 1
      and old = "[]"
      and e = "demo_env (1 / 2) 30" and v = first_round and nw = "[Fin 1]"
      and v' = "\<lparr>weights = [Fin (1 / 2)], uids_to_eval = {|0|}, pending_uids_to_eval = {||}\<rparr>"]
  have t: "(length [1 / 2, 1 / 2 :: real] = length [1 / 4, 3 / 4 :: real] \<longrightarrow>
        moving_average 1 (map Fin [1 / 4, 3 / 4]) (map Fin [1 / 2, 1 / 2]) = map Fin [1 / 4, 3 / 4])
     \<and> (length [1 / 2, 1 / 2 :: real] = length [1 / 4, 3 / 4 :: real] \<longrightarrow>
        moving_average 0 (map Fin [1 / 4, 3 / 4]) (map Fin [1 / 2, 1 / 2]) = map Fin [1 / 2, 1 / 2])
     \<and> (run_step (demo_env (1 / 2) 30) first_round =
           Inr \<lparr>weights = [Fin (1 / 2)], uids_to_eval = {|0|}, pending_uids_to_eval = {||}\<rparr>
         \<and> round_vector (demo_env (1 / 2) 30) first_round = Inr [Fin 1] \<longrightarrow>
        weights \<lparr>weights = [Fin (1 / 2)], uids_to_eval = {|0|}, pending_uids_to_eval = {||}\<rparr>
          = moving_average (alpha (demo_env (1 / 2) 30)) (weights first_round) [Fin 1])"
    by blast
  have l: "length [1 / 2, 1 / 2 :: real] = length [1 / 4, 3 / 4 :: real]" by simp
  from t l r n show ?thesis by blast
qed

text \<open>
  With \<open>\<alpha> = 1\<close> and no uid to evaluate, the round's vector is NaN everywhere and the
  weights \<open>[1/2, 1/2]\<close> become \<open>[0, 0]\<close>.
\<close>

theorem moving_average_alpha_one_counterexample:
  "alpha (demo_env 1 30) = 1
   \<and> weights idle_round = [Fin (1 / 2), Fin (1 / 2)]
   \<and> round_vector (demo_env 1 30) idle_round = Inr [NaN, NaN]
   \<and> run_step (demo_env 1 30) idle_round =
       Inr \<lparr>weights = [Fin 0, Fin 0], uids_to_eval = {||}, pending_uids_to_eval = {||}\<rparr>"
  by (simp add: demo_env_def idle_round_def run_defs)


lemma scatter_Inr_bound:
  "scatter xs ps = Inr ys \<Longrightarrow> \<forall>p\<in>set ps. fst p < length xs"
  by (induction xs ps arbitrary: ys rule: scatter.induct) (auto split: if_splits)

lemma length_softmax: "length (softmax xs) = length xs"
  by (cases xs) (simp_all add: softmax_def Let_def)

lemma new_weights_Inr_bound:
  assumes "new_weights temp n wr uids = Inr nw"
  shows "\<forall>u\<in>set uids. u < n"
proof
  fix u assume u: "u \<in> set uids"
  from assms obtain ys where
    s: "scatter (replicate n (Fin 0)) (zip uids (step_weights temp wr uids)) = Inr ys"
    by (auto simp: new_weights_def split: sum.splits)
  have "length uids = length (step_weights temp wr uids)"
    by (simp add: step_weights_def length_softmax)
  from in_set_impl_in_set_zip1 [OF this u] obtain w where
    "(u, w) \<in> set (zip uids (step_weights temp wr uids))" by blast
  with scatter_Inr_bound [OF s] show "u < n" by force
qed

text \<open>
  C1, as the code has it. After a round that completes its weight update, every
  weight is a finite number (no NaN), and the vector has the length it had. Its sum
  is \<open>\<alpha> * (sum before) + (1 - \<alpha>)\<close> when the weights before were finite and the round
  had an effective uid (temperature not 0, arithmetic exact); so it is 1 when the sum
  before was 1. From the zero vector of the first round the sum is \<open>1 - \<alpha>\<close>, and a
  round with no effective uid stores the zero vector.
\<close>

theorem run_step_weights_sum:
  "run_step e v = Inr v' \<longrightarrow>
     NaN \<notin> set (weights v')
     \<and> (\<forall>w\<in>set (weights v'). \<exists>r. w = Fin r)
     \<and> length (weights v') = length (weights v)
     \<and> (weights v = map Fin ws \<and> effective e v \<noteq> []
          \<and> distinct (set_order e (uids_to_eval v)) \<and> temperature e \<noteq> 0 \<longrightarrow>
        fl_sum (weights v') = Fin (alpha e * sum_list ws + (1 - alpha e))
        \<and> (sum_list ws = 1 \<longrightarrow> fl_sum (weights v') = Fin 1))
     \<and> (effective e v = [] \<longrightarrow> weights v' = replicate (length (weights v)) (Fin 0))"
proof
  assume r: "run_step e v = Inr v'"
  let ?uids = "map fst (effective e v)"
  let ?n = "length (weights v)"
  from r obtain wins :: "nat \<Rightarrow> nat" and wr nw where
    n: "new_weights (temperature e) ?n wr ?uids = Inr nw"
    and w: "weights v' = moving_average (alpha e) (weights v) nw"
    by (rule run_step_round_vector)
  have fin: "\<forall>w\<in>set (weights v'). \<exists>r. w = Fin r"
    unfolding w by (blast dest: moving_average_no_nan)
  then have nonan: "NaN \<notin> set (weights v')" by auto
  have len: "length (weights v') = ?n"
    unfolding w using new_weights_Inr_length [OF n] by (rule moving_average_length)
  have empty: "weights v' = replicate ?n (Fin 0)" if "effective e v = []"
  proof -
    from that n have "nw = replicate ?n NaN" by (simp add: new_weights_empty)
    then show ?thesis unfolding w by (simp only: moving_average_nan)
  qed
  have total: "fl_sum (weights v') = Fin (alpha e * sum_list ws + (1 - alpha e))"
    if a: "weights v = map Fin ws \<and> effective e v \<noteq> []
          \<and> distinct (set_order e (uids_to_eval v)) \<and> temperature e \<noteq> 0"
  proof -
    from a have t: "temperature e \<noteq> 0" and u: "?uids \<noteq> []" by simp_all
    from a have d: "distinct ?uids" by (simp add: effective_distinct)
    note b = new_weights_Inr_bound [OF n]
    from new_weights_Fin [OF t u d b, of wr] n have
      nw: "nw = map Fin (scores (temperature e) ?n wr ?uids)"
      and one: "sum_list (scores (temperature e) ?n wr ?uids) = 1" by simp_all
    from a have l: "length ws = length (scores (temperature e) ?n wr ?uids)"
      by (simp add: scores_def)
    from a have "weights v' =
        map Fin (map2 (\<lambda>w r. alpha e * w + (1 - alpha e) * r) ws
                   (scores (temperature e) ?n wr ?uids))"
      unfolding w nw by (simp only: moving_average_Fin)
    then show ?thesis
      by (simp only: fl_sum_Fin moving_average_sum [OF l] one) simp
  qed
  from total have both: "fl_sum (weights v') = Fin (alpha e * sum_list ws + (1 - alpha e))
        \<and> (sum_list ws = 1 \<longrightarrow> fl_sum (weights v') = Fin 1)"
    if "weights v = map Fin ws \<and> effective e v \<noteq> []
          \<and> distinct (set_order e (uids_to_eval v)) \<and> temperature e \<noteq> 0"
    using that by simp
  from fin nonan len empty both
  show "NaN \<notin> set (weights v')
     \<and> (\<forall>w\<in>set (weights v'). \<exists>r. w = Fin r)
     \<and> length (weights v') = length (weights v)
     \<and> (weights v = map Fin ws \<and> effective e v \<noteq> []
          \<and> distinct (set_order e (uids_to_eval v)) \<and> temperature e \<noteq> 0 \<longrightarrow>
        fl_sum (weights v') = Fin (alpha e * sum_list ws + (1 - alpha e))
        \<and> (sum_list ws = 1 \<longrightarrow> fl_sum (weights v') = Fin 1))
     \<and> (effective e v = [] \<longrightarrow> weights v' = replicate (length (weights v)) (Fin 0))"
    by blast
qed

theorem run_step_weights_sum_witness:
  "run_step (demo_env (1 / 2) 30) later_round =
     Inr \<lparr>weights = [Fin (3 / 8), Fin (5 / 8), Fin 0], uids_to_eval = {|0, 1, 2|},
          pending_uids_to_eval = {||}\<rparr>
   \<and> NaN \<notin> set (weights \<lparr>weights = [Fin (3 / 8), Fin (5 / 8), Fin 0],
          uids_to_eval = {|0, 1, 2|}, pending_uids_to_eval = {||}\<rparr>)
   \<and> sum_list [1 / 4, 3 / 4, 0 :: real] = 1
   \<and> fl_sum (weights \<lparr>weights = [Fin (3 / 8), Fin (5 / 8), Fin 0],
          uids_to_eval = {|0, 1, 2|}, pending_uids_to_eval = {||}\<rparr>) = Fin 1
   \<and> run_step (demo_env (1 / 2) 30) idle_round =
       Inr \<lparr>weights = [Fin 0, Fin 0], uids_to_eval = {||}, pending_uids_to_eval = {||}\<rparr>
   \<and> effective (demo_env (1 / 2) 30) idle_round = []
   \<and> weights \<lparr>weights = [Fin 0, Fin 0], uids_to_eval = {||}, pending_uids_to_eval = {||}\<rparr>
       = replicate (length (weights idle_round)) (Fin 0)"
proof -
  have r: "run_step (demo_env (1 / 2) 30) later_round =
     Inr \<lparr>weights = [Fin (3 / 8), Fin (5 / 8), Fin 0], uids_to_eval = {|0, 1, 2|},
          pending_uids_to_eval = {||}\<rparr>"
    by (simp add: demo_env_def later_round_def run_defs upt_rec numeral_eq_Suc finsert_commute)
  have h: "weights later_round = map Fin [1 / 4, 3 / 4, 0]
      \<and> effective (demo_env (1 / 2) 30) later_round \<noteq> []
      \<and> distinct (set_order (demo_env (1 / 2) 30) (uids_to_eval later_round))
      \<and> temperature (demo_env (1 / 2) 30) \<noteq> 0"
    by (simp add: demo_env_def later_round_def effective_def)
  have s: "sum_list [1 / 4, 3 / 4, 0 :: real] = 1" by simp
  have r': "run_step (demo_env (1 / 2) 30) idle_round =
       Inr \<lparr>weights = [Fin 0, Fin 0], uids_to_eval = {||}, pending_uids_to_eval = {||}\<rparr>"
    by (simp add: demo_env_def idle_round_def run_defs)
  have e: "effective (demo_env (1 / 2) 30) idle_round = []"
    by (simp add: demo_env_def idle_round_def effective_def)
  note t = run_step_weights_sum [where e = "demo_env (1 / 2) 30" and v = later_round
      and ws = "[1 / 4, 3 / 4, 0]", THEN mp, OF r]
  note t' = run_step_weights_sum [where e = "demo_env (1 / 2) 30" and v = idle_round
      and ws = "[]", THEN mp, OF r']
  note a = t [THEN conjunct1]
  note b = t [THEN conjunct2, THEN conjunct2, THEN conjunct2, THEN conjunct1, THEN mp, OF h,
      THEN conjunct2, THEN mp, OF s]
  note c = t' [THEN conjunct2, THEN conjunct2, THEN conjunct2, THEN conjunct2, THEN mp, OF e]
  from r a s b r' e c show ?thesis by blast
qed

text \<open>
  The first round, from the zero vector, with \<open>\<alpha> = 1/2\<close> and one uid: the round's
  vector is \<open>[1]\<close> and the stored weights \<open>[1/2]\<close> sum to \<open>1/2\<close>.
\<close>

theorem run_step_first_round_counterexample:
  "weights first_round = [Fin 0]
   \<and> round_vector (demo_env (1 / 2) 30) first_round = Inr [Fin 1]
   \<and> run_step (demo_env (1 / 2) 30) first_round =
       Inr \<lparr>weights = [Fin (1 / 2)], uids_to_eval = {|0|}, pending_uids_to_eval = {||}\<rparr>
   \<and> fl_sum [Fin (1 / 2)] = Fin (1 / 2)"
  by (simp add: demo_env_def first_round_def run_defs)

section \<open>Proofs: a uid whose model is not there\<close>

lemma compute_wins_opp:
  assumes "compute_wins cmp lpu nb cands = Inr (wins, wr)"
    and "distinct (map fst cands)" and "uid \<in> fst ` set cands"
  obtains i t where "wins uid = opp_wins cmp lpu nb i uid t (enumerate 0 cands)"
proof -
  let ?ev = "enumerate 0 cands"
  from assms(3) obtain t where "(uid, t) \<in> set cands" by auto
  then obtain i where i: "i < length cands" "cands ! i = (uid, t)" by (auto simp: in_set_conv_nth)
  then have m: "(i, uid, t) \<in> set ?ev" by (auto simp: in_set_enumerate_eq)
  have d: "distinct (map (\<lambda>x. fst (snd x)) ?ev)" using assms(2) by (simp add: enumerate_uids)
  from candidate_loop_Inr[OF assms(1)[unfolded compute_wins_def] d] m
  have "wins uid = 0 + opp_wins cmp lpu nb i uid t ?ev" by auto
  then show ?thesis using that by simp
qed

lemma pair_wins_inf:
  assumes "\<forall>b<nb. lpu uid ! b = PInf" and "\<forall>l ti tj. \<not> cmp PInf l ti tj"
  shows "pair_wins cmp lpu uid t uj tj [0..<nb] = 0"
proof -
  have "filter (\<lambda>b. cmp (lpu uid ! b) (lpu uj ! b) t tj) [0..<nb] = []"
    using assms by (auto simp: filter_empty_conv)
  then show ?thesis by (simp add: pair_wins_def)
qed

lemma opp_wins_inf:
  assumes "\<forall>b<nb. lpu uid ! b = PInf" and "\<forall>l ti tj. \<not> cmp PInf l ti tj"
  shows "opp_wins cmp lpu nb i uid t ev = 0"
proof -
  have z: "pair_wins cmp lpu uid t uj tj [0..<nb] = 0" for uj tj
    using assms by (rule pair_wins_inf)
  have "(\<Sum>(j, uid_j, time_j)\<leftarrow>ev.
          if i = j then 0 else pair_wins cmp lpu uid t uid_j time_j [0..<nb]) = 0"
    by (induction ev) (auto simp: z)
  then show ?thesis by (simp add: opp_wins_def)
qed

lemma model_losses_unavailable:
  "load_model e uid = None \<Longrightarrow> model_losses e uid = replicate (length (batches e)) PInf"
  by (simp add: model_losses_def map_replicate_const)

text \<open>
  C4, as the code has it. A uid whose model is not there has the loss \<open>+\<infinity>\<close> for
  every batch. Under a comparator that never lets the loss \<open>+\<infinity>\<close> win, it ends the
  round with no win and the win rate 0. Its entry of the round's vector is its
  softmax score \<open>exp (0 / T) / \<Sum>\<^sub>j exp (winRate\<^sub>j / T) = 1 / \<Sum>\<^sub>j exp (winRate\<^sub>j / T)\<close>,
  which is positive, not 0.
\<close>

theorem unavailable_model_score:
  "(load_model e uid = None \<longrightarrow> model_losses e uid = replicate (length (batches e)) PInf)
   \<and> (round_scores e (effective e v) = Inr (wins, win_rate)
        \<and> distinct (set_order e (uids_to_eval v)) \<and> uid \<in> fst ` set (effective e v)
        \<and> load_model e uid = None \<and> (\<forall>l ti tj. \<not> iswin e PInf l ti tj) \<longrightarrow>
      wins uid = 0 \<and> win_rate uid = 0
      \<and> (temperature e \<noteq> 0 \<and> round_vector e v = Inr nw \<longrightarrow>
           nw ! uid = Fin (softmax_score (temperature e) win_rate (map fst (effective e v)) uid)
           \<and> softmax_score (temperature e) win_rate (map fst (effective e v)) uid =
               1 / (\<Sum>u\<leftarrow>map fst (effective e v). exp (win_rate u / temperature e))
           \<and> 0 < softmax_score (temperature e) win_rate (map fst (effective e v)) uid))"
proof -
  let ?uids = "map fst (effective e v)"
  let ?n = "length (weights v)"
  let ?nb = "length (batches e)"
  have p2: "wins uid = 0 \<and> win_rate uid = 0
      \<and> (temperature e \<noteq> 0 \<and> round_vector e v = Inr nw \<longrightarrow>
           nw ! uid = Fin (softmax_score (temperature e) win_rate ?uids uid)
           \<and> softmax_score (temperature e) win_rate ?uids uid =
               1 / (\<Sum>u\<leftarrow>?uids. exp (win_rate u / temperature e))
           \<and> 0 < softmax_score (temperature e) win_rate ?uids uid)"
    if a: "round_scores e (effective e v) = Inr (wins, win_rate)
        \<and> distinct (set_order e (uids_to_eval v)) \<and> uid \<in> fst ` set (effective e v)
        \<and> load_model e uid = None \<and> (\<forall>l ti tj. \<not> iswin e PInf l ti tj)"
  proof -
    from a have s: "round_scores e (effective e v) = Inr (wins, win_rate)"
      and u: "uid \<in> fst ` set (effective e v)"
      and cmp: "\<forall>l ti tj. \<not> iswin e PInf l ti tj" by simp_all
    from a have d: "distinct ?uids" by (simp add: effective_distinct)
    from s obtain lpu where
      l: "\<forall>u\<in>fst ` set (effective e v). lpu u = model_losses e u"
      and c: "compute_wins (iswin e) lpu ?nb (effective e v) = Inr (wins, win_rate)"
      by (rule round_scores_Inr)
    from l u have "lpu uid = model_losses e uid" by blast
    with a have "lpu uid = replicate ?nb PInf"
      by (simp add: model_losses_unavailable)
    then have inf: "\<forall>b<?nb. lpu uid ! b = PInf" by simp
    from compute_wins_opp [OF c d u] obtain i t where
      "wins uid = opp_wins (iswin e) lpu ?nb i uid t (enumerate 0 (effective e v))" .
    then have w0: "wins uid = 0" by (simp add: opp_wins_inf [where lpu = lpu and uid = uid and cmp = "iswin e", OF inf cmp])
    from compute_wins_Inr [OF c d u] w0 have r0: "win_rate uid = 0" by simp
    have vec: "nw ! uid = Fin (softmax_score (temperature e) win_rate ?uids uid)
           \<and> softmax_score (temperature e) win_rate ?uids uid =
               1 / (\<Sum>u\<leftarrow>?uids. exp (win_rate u / temperature e))
           \<and> 0 < softmax_score (temperature e) win_rate ?uids uid"
      if b: "temperature e \<noteq> 0 \<and> round_vector e v = Inr nw"
    proof -
      from b have t: "temperature e \<noteq> 0" by simp
      from b s have n: "new_weights (temperature e) ?n win_rate ?uids = Inr nw"
        by (simp add: round_vector_def Let_def)
      from u have mem: "uid \<in> set ?uids" by simp
      then have ne: "?uids \<noteq> []" by auto
      note bound = new_weights_Inr_bound [OF n]
      from new_weights_Fin(1) [OF t ne d bound, of win_rate] n have
        nw: "nw = map Fin (scores (temperature e) ?n win_rate ?uids)" by simp
      from bound mem have "uid < ?n" by blast
      with mem have e1: "nw ! uid = Fin (softmax_score (temperature e) win_rate ?uids uid)"
        by (simp add: nw scores_def)
      have e2: "softmax_score (temperature e) win_rate ?uids uid =
               1 / (\<Sum>u\<leftarrow>?uids. exp (win_rate u / temperature e))"
        by (simp add: softmax_score_def r0)
      from e1 e2 softmax_score_pos [OF mem, of "temperature e" win_rate] show ?thesis by simp
    qed
    from w0 r0 vec show ?thesis by blast
  qed
  from p2 model_losses_unavailable [of e uid] show ?thesis by blast
qed

theorem unavailable_model_score_witness:
  "model_losses (demo_env (1 / 2) 30) 1 = replicate (length (batches (demo_env (1 / 2) 30))) PInf
   \<and> round_scores (demo_env (1 / 2) 30) (effective (demo_env (1 / 2) 30) later_round) =
       Inr ((\<lambda>_. 0)(1 := 0, 0 := 0), (\<lambda>_. 0)(1 := 0, 0 := 0))
   \<and> round_vector (demo_env (1 / 2) 30) later_round = Inr [Fin (1 / 2), Fin (1 / 2), Fin 0]
   \<and> [Fin (1 / 2), Fin (1 / 2), Fin 0] ! 1 =
       Fin (softmax_score (temperature (demo_env (1 / 2) 30)) ((\<lambda>_. 0)(1 := 0, 0 := 0))
              (map fst (effective (demo_env (1 / 2) 30) later_round)) 1)
   \<and> 0 < softmax_score (temperature (demo_env (1 / 2) 30)) ((\<lambda>_. 0)(1 := 0, 0 := 0))
              (map fst (effective (demo_env (1 / 2) 30) later_round)) 1"
proof -
  have s: "round_scores (demo_env (1 / 2) 30) (effective (demo_env (1 / 2) 30) later_round) =
       Inr ((\<lambda>_. 0)(1 := 0, 0 := 0), (\<lambda>_. 0)(1 := 0, 0 := 0))"
    by (simp add: demo_env_def later_round_def run_defs upt_rec numeral_eq_Suc fun_eq_iff)
  have n: "round_vector (demo_env (1 / 2) 30) later_round = Inr [Fin (1 / 2), Fin (1 / 2), Fin 0]"
    by (simp add: demo_env_def later_round_def run_defs upt_rec numeral_eq_Suc)
  have h: "distinct (set_order (demo_env (1 / 2) 30) (uids_to_eval later_round))
      \<and> 1 \<in> fst ` set (effective (demo_env (1 / 2) 30) later_round)
      \<and> load_model (demo_env (1 / 2) 30) 1 = None
      \<and> temperature (demo_env (1 / 2) 30) \<noteq> 0"
    by (simp add: demo_env_def later_round_def effective_def)
  have "\<not> fl_less PInf l" for l by (cases l) simp_all
  then have c: "\<forall>l ti tj. \<not> iswin (demo_env (1 / 2) 30) PInf l ti tj"
    by (simp add: demo_env_def lower_loss_wins_def)
  note t = unavailable_model_score [where e = "demo_env (1 / 2) 30" and v = later_round
      and uid = 1 and wins = "(\<lambda>_. 0)(1 := 0, 0 := 0)" and win_rate = "(\<lambda>_. 0)(1 := 0, 0 := 0)"
      and nw = "[Fin (1 / 2), Fin (1 / 2), Fin 0]"]
  from h have m: "load_model (demo_env (1 / 2) 30) 1 = None" by blast
  from s h c have hyp:
    "round_scores (demo_env (1 / 2) 30) (effective (demo_env (1 / 2) 30) later_round) =
         Inr ((\<lambda>_. 0)(1 := 0, 0 := 0), (\<lambda>_. 0)(1 := 0, 0 := 0))
     \<and> distinct (set_order (demo_env (1 / 2) 30) (uids_to_eval later_round))
     \<and> 1 \<in> fst ` set (effective (demo_env (1 / 2) 30) later_round)
     \<and> load_model (demo_env (1 / 2) 30) 1 = None
     \<and> (\<forall>l ti tj. \<not> iswin (demo_env (1 / 2) 30) PInf l ti tj)"
    by blast
  from h n have hyp2: "temperature (demo_env (1 / 2) 30) \<noteq> 0
     \<and> round_vector (demo_env (1 / 2) 30) later_round = Inr [Fin (1 / 2), Fin (1 / 2), Fin 0]"
    by blast
  note t1 = t [THEN conjunct1, THEN mp, OF m]
  note t2 = t [THEN conjunct2, THEN mp, OF hyp]
  note t3 = t2 [THEN conjunct2, THEN conjunct2, THEN mp, OF hyp2]
  from t1 s n t3 show ?thesis by blast
qed

text \<open>
  One uid, whose model is not there: its loss is \<open>+\<infinity>\<close>, and its entry of the round's
  vector is 1.
\<close>

theorem unavailable_model_score_counterexample:
  "effective (demo_env (1 / 2) 30) first_round = [(0, 0)]
   \<and> load_model (demo_env (1 / 2) 30) 0 = None
   \<and> model_losses (demo_env (1 / 2) 30) 0 = [PInf]
   \<and> round_vector (demo_env (1 / 2) 30) first_round = Inr [Fin 1]"
  by (simp add: demo_env_def first_round_def run_defs)

section \<open>Proofs: the deadline of a round\<close>

lemma try_run_step_positive_ttl:
  "0 < ttl \<Longrightarrow> run_step e v = Inr v' \<Longrightarrow> try_run_step ttl seconds e v = (Finished, v')"
  by (simp add: try_run_step_def)

lemma try_run_step_timed_out:
  "try_run_step ttl seconds e v = (TimedOut, v') \<Longrightarrow> ttl \<le> 0 \<and> v' = v"
  by (auto simp: try_run_step_def split: if_splits sum.splits)

text \<open>
  C2 fails on the code. A round that needs 1500 seconds under \<open>ttl = 1200\<close> is past
  its deadline, yet it is not abandoned: \<open>try_run_step\<close> reports a finished step, and
  the weights, the uids to evaluate and the pending uids are all rewritten.
\<close>

theorem try_run_step_past_deadline:
  "deadline_elapsed 1200 1500
   \<and> weights later_round = [Fin (1 / 4), Fin (3 / 4), Fin 0]
   \<and> uids_to_eval later_round = {|0, 1|}
   \<and> pending_uids_to_eval later_round = {|2|}
   \<and> try_run_step 1200 1500 (demo_env (1 / 2) 30) later_round =
       (Finished,
        \<lparr>weights = [Fin (3 / 8), Fin (5 / 8), Fin 0], uids_to_eval = {|0, 1, 2|},
         pending_uids_to_eval = {||}\<rparr>)"
proof -
  have r: "run_step (demo_env (1 / 2) 30) later_round =
     Inr \<lparr>weights = [Fin (3 / 8), Fin (5 / 8), Fin 0], uids_to_eval = {|0, 1, 2|},
          pending_uids_to_eval = {||}\<rparr>"
    by (simp add: demo_env_def later_round_def run_defs upt_rec numeral_eq_Suc finsert_commute)
  have "try_run_step 1200 1500 (demo_env (1 / 2) 30) later_round =
       (Finished,
        \<lparr>weights = [Fin (3 / 8), Fin (5 / 8), Fin 0], uids_to_eval = {|0, 1, 2|},
         pending_uids_to_eval = {||}\<rparr>)"
    using r by (simp add: try_run_step_def)
  then show ?thesis by (simp add: deadline_elapsed_def later_round_def)
qed

end
